theory Spec2Isabelle
  imports Main
begin

section \<open>Strings\<close>

text \<open>
  A JavaScript string is modelled as a \<open>char list\<close>; a \<open>char\<close> stands for a code unit
  below 256 (the Latin-1 range), on which \<open>toLowerCase\<close> and \<open>trim\<close> act code unit by
  code unit: the capital letters are U+0041..U+005A and U+00C0..U+00DE without U+00D7,
  each 32 below its small letter; the white space and line terminators of that range are
  U+0009..U+000D, U+0020 and U+00A0.
\<close>

definition isUpperCase :: "char \<Rightarrow> bool" where
  "isUpperCase c =
     (let n = (of_char c :: nat)
      in (65 \<le> n \<and> n \<le> 90) \<or> (192 \<le> n \<and> n \<le> 222 \<and> n \<noteq> 215))"

definition toLowerCaseChar :: "char \<Rightarrow> char" where
  "toLowerCaseChar c = (if isUpperCase c then char_of (of_char c + (32::nat)) else c)"

definition toLowerCase :: "string \<Rightarrow> string" where
  "toLowerCase s = map toLowerCaseChar s"

definition isWhiteSpace :: "char \<Rightarrow> bool" where
  "isWhiteSpace c = List.member [9, 10, 11, 12, 13, 32, 160] (of_char c :: nat)"

definition trim :: "string \<Rightarrow> string" where
  "trim s = rev (dropWhile isWhiteSpace (rev (dropWhile isWhiteSpace s)))"

text \<open>The separator class \<^verbatim>\<open>[\r\n,;]\<close> of the two configuration lists.\<close>

definition isSeparator :: "char \<Rightarrow> bool" where
  "isSeparator c = List.member [CHR 0x0D, CHR 0x0A, CHR '','', CHR '';''] c"

text \<open>
  \<^verbatim>\<open>s.split(/[\r\n,;]+/g)\<close>: the string is cut at every maximal run of separators; the
  pieces before the first run and after the last one are kept, also when they are empty,
  and the empty string gives one empty piece. \<open>cur\<close> is the piece being read.
\<close>

function splitAcc :: "string \<Rightarrow> string \<Rightarrow> string list" where
  "splitAcc cur [] = [cur]"
| "splitAcc cur (c # cs) =
     (if isSeparator c then cur # splitAcc [] (dropWhile isSeparator cs)
      else splitAcc (cur @ [c]) cs)"
  by pat_completeness auto
termination
  by (relation "measure (\<lambda>(cur, cs). length cs)")
     (auto simp: length_dropWhile_le less_Suc_eq_le)

definition split_separators :: "string \<Rightarrow> string list" where
  "split_separators s = splitAcc [] s"

text \<open>\<^verbatim>\<open>xs.join(sep)\<close>.\<close>

fun join :: "string \<Rightarrow> string list \<Rightarrow> string" where
  "join sep [] = []"
| "join sep [x] = x"
| "join sep (x # y # ys) = x @ sep @ join sep (y # ys)"

text \<open>The decimal numeral of a PR number, as a template literal prints it.\<close>

fun showNat :: "nat \<Rightarrow> string" where
  "showNat n =
     (if n < 10 then [''0123456789'' ! n]
      else showNat (n div 10) @ [''0123456789'' ! (n mod 10)])"

declare showNat.simps [simp del]

definition quote :: "string \<Rightarrow> string" where
  "quote s = [CHR 0x27] @ s @ [CHR 0x27]"

section \<open>Configuration\<close>

text \<open>
  The four module constants read at start-up (main.ts, lines 15 to 18). \<open>inputs\<close> holds
  what \<^verbatim>\<open>core.getInput\<close> returns for each name.
\<close>

record inputs =
  input_requiredLabels :: string
  input_authors :: string
  input_preferredMergeOption :: string
  input_dryRun :: string

record config =
  requiredLabels :: "string list"
  authors :: "string list"
  preferredMergeOption :: string
  dryRun :: bool

definition parseList :: "string \<Rightarrow> string list" where
  "parseList s =
     filter (\<lambda>it. length it \<noteq> 0) (map (\<lambda>it. toLowerCase (trim it)) (split_separators s))"

definition readConfig :: "inputs \<Rightarrow> config" where
  "readConfig i =
     \<lparr> requiredLabels = parseList (input_requiredLabels i),
       authors = parseList (input_authors i),
       preferredMergeOption = input_preferredMergeOption i,
       dryRun = (toLowerCase (input_dryRun i) = ''true'') \<rparr>"

section \<open>Data\<close>

text \<open>
  The fields of a pull request that \<^verbatim>\<open>processPr\<close> reads. \<open>head_repo_html_url\<close> is \<open>None\<close>
  when \<^verbatim>\<open>pr.head.repo\<close> is null, \<open>user_login\<close> is \<open>None\<close> when \<^verbatim>\<open>pr.user\<close> or its login is
  absent, \<open>auto_merge\<close> holds the merge method of the auto-merge object or \<open>None\<close> for null,
  \<open>labels\<close> holds the label names. \<open>mergeable\<close> is absent in a list item
  (\<^verbatim>\<open>PullRequestSimple\<close>) and a boolean or null in a fetched pull request.
\<close>

datatype mergeable_flag = MergeableAbsent | MergeableNull | Mergeable bool

record pull_request =
  number :: nat
  base_ref :: string
  base_repo_html_url :: string
  head_repo_html_url :: "string option"
  head_sha :: string
  merged_at :: "string option"
  auto_merge :: "string option"
  draft :: "bool option"
  labels :: "string list"
  user_login :: "string option"
  mergeable :: mergeable_flag

text \<open>
  \<^verbatim>\<open>branch.protection\<close>: \<open>protection_enabled\<close> is the optional boolean \<^verbatim>\<open>enabled\<close>,
  \<open>required_status_checks_checks\<close> is \<^verbatim>\<open>required_status_checks?.checks\<close>, \<open>None\<close> when a
  link of that optional chain is missing.
\<close>

record branch =
  protection_enabled :: "bool option"
  required_status_checks_checks :: "string list option"

text \<open>
  What is thrown: the error of a failed request, with its HTTP status (\<^verbatim>\<open>error.status\<close>) and
  its message, or a TypeError. An error that has no status behaves as one whose status is
  not 409, the only status the code below compares with.
\<close>

datatype error = RemoteError nat string | TypeError

fun status :: "error \<Rightarrow> nat option" where
  "status (RemoteError st msg) = Some st"
| "status TypeError = None"

text \<open>
  The calls sent to the remote, all of them for the repository of the run
  (\<^verbatim>\<open>context.repo\<close>, the same owner and name in every call, left out here):
  \<^verbatim>\<open>pulls.get\<close> of a number, \<^verbatim>\<open>repos.getBranch\<close> of a branch name, \<^verbatim>\<open>pulls.merge\<close> of a number
  with the expected head sha and the merge method (\<open>None\<close> for undefined), and the request
  of one page of \<^verbatim>\<open>pulls.list\<close> with state open.
\<close>

datatype request =
    PullsGet nat
  | ReposGetBranch string
  | PullsMerge nat string "string option"
  | PullsList nat

text \<open>What a run does that can be observed, in the order it happens.\<close>

datatype event =
    StartGroup string
  | EndGroup
  | Warning string
  | Debug string
  | SetFailed error
  | Call request

text \<open>
  The remote answers a call with a failure or a value; the answer may depend on everything
  that happened before the call, so the same call can get different answers at different
  moments of a run. The list of open pull requests is finite: the paginated sequence has
  \<open>pulls_list_pages\<close> pages, numbered from 1, and the iteration over it ends after the
  last one.
\<close>

record remote =
  pulls_get :: "event list \<Rightarrow> nat \<Rightarrow> error + pull_request"
  repos_getBranch :: "event list \<Rightarrow> string \<Rightarrow> error + branch"
  pulls_merge :: "event list \<Rightarrow> nat \<Rightarrow> string \<Rightarrow> string option \<Rightarrow> error + unit"
  pulls_list :: "event list \<Rightarrow> nat \<Rightarrow> error + pull_request list"
  pulls_list_pages :: nat

text \<open>The state of a run: the module-level cache and the events so far.\<close>

record state =
  doesBranchHaveRequiredChecksCache :: "string \<rightharpoonup> bool"
  events :: "event list"

definition initial_state :: state where
  "initial_state = \<lparr> doesBranchHaveRequiredChecksCache = Map.empty, events = [] \<rparr>"

definition emit :: "event \<Rightarrow> state \<Rightarrow> state" where
  "emit e s = s\<lparr> events := events s @ [e] \<rparr>"

text \<open>The webhook payloads and the context of the run.\<close>

record check_run_completed =
  action :: string
  check_run_id :: nat
  check_run_html_url :: string
  check_run_conclusion :: "string option"
  check_run_pull_requests :: "nat list"

record deployment_status_created =
  deployment_status_state :: string

datatype payload =
    CheckRunPayload check_run_completed
  | DeploymentStatusPayload deployment_status_created
  | OtherPayload

record github_context =
  eventName :: string
  runId :: nat
  payload :: payload

section \<open>The branch-protection cache\<close>

definition doesBranchHaveRequiredChecks ::
  "remote \<Rightarrow> string \<Rightarrow> state \<Rightarrow> (error + bool) \<times> state" where
  "doesBranchHaveRequiredChecks r branchName s =
     (case doesBranchHaveRequiredChecksCache s branchName of
        Some v \<Rightarrow> (Inr v, s)
      | None \<Rightarrow>
          (let s1 = emit (Call (ReposGetBranch branchName)) s
           in case repos_getBranch r (events s) branchName of
                Inl e \<Rightarrow> (Inl e, s1)
              | Inr b \<Rightarrow>
                  (let hasRequiredChecks =
                         (protection_enabled b = Some True
                          \<and> (case required_status_checks_checks b of
                                None \<Rightarrow> False
                              | Some checks \<Rightarrow> length checks \<noteq> 0))
                   in (Inr hasRequiredChecks,
                       s1\<lparr> doesBranchHaveRequiredChecksCache :=
                             (doesBranchHaveRequiredChecksCache s1)(branchName \<mapsto> hasRequiredChecks) \<rparr>))))"

section \<open>Processing one pull request\<close>

definition skip :: "string \<Rightarrow> state \<Rightarrow> (error + unit) \<times> state" where
  "skip msg s = (Inr (), emit (Warning msg) s)"

definition skipping :: "nat \<Rightarrow> string \<Rightarrow> string" where
  "skipping prNumber reason = ''Skipping PR #'' @ showNat prNumber @ '': '' @ reason"

text \<open>
  The end of \<^verbatim>\<open>processPr\<close> (lines 123 to 132), reached when no check has returned: the
  merge is announced, and the merge call is sent unless this is a dry run.
\<close>

definition mergePr ::
  "config \<Rightarrow> remote \<Rightarrow> nat \<Rightarrow> pull_request \<Rightarrow> state \<Rightarrow> (error + unit) \<times> state" where
  "mergePr cfg r prNumber pr s =
     (let s1 = emit (Warning (''Merging PR #'' @ showNat prNumber)) s
      in
      if \<not> dryRun cfg then
        (let merge_method =
               (if length (preferredMergeOption cfg) \<noteq> 0
                then Some (preferredMergeOption cfg) else None);
             s2 = emit (Call (PullsMerge prNumber (head_sha pr) merge_method)) s1
         in case pulls_merge r (events s1) prNumber (head_sha pr) merge_method of
              Inl e \<Rightarrow> (Inl e, s2)
            | Inr u \<Rightarrow> (Inr (), s2))
      else (Inr (), s1))"

text \<open>
  Lines 117 to 121 of \<^verbatim>\<open>processPr\<close>, the last check: the base branch is looked up in the
  cache or at the remote; a failure of the lookup is thrown on.
\<close>

definition requiredChecksThenMerge ::
  "config \<Rightarrow> remote \<Rightarrow> nat \<Rightarrow> pull_request \<Rightarrow> state \<Rightarrow> (error + unit) \<times> state" where
  "requiredChecksThenMerge cfg r prNumber pr s =
     (case doesBranchHaveRequiredChecks r (base_ref pr) s of
        (Inl e, s1) \<Rightarrow> (Inl e, s1)
      | (Inr hasRequiredChecks, s1) \<Rightarrow>
          if \<not> hasRequiredChecks then
            skip (skipping prNumber (''the base branch '' @ quote (base_ref pr)
                    @ '' doesn't have required status checks'')) s1
          else mergePr cfg r prNumber pr s1)"

text \<open>
  The body of \<^verbatim>\<open>processPr\<close> from line 75 on, for the pull request \<open>pr\<close> that was passed in or
  fetched, up to line 115; \<open>prNumber\<close> is the number the messages and the merge call use.
\<close>

definition processPrChecks ::
  "config \<Rightarrow> remote \<Rightarrow> nat \<Rightarrow> pull_request \<Rightarrow> state \<Rightarrow> (error + unit) \<times> state" where
  "processPrChecks cfg r prNumber pr s =
     (let baseRepo = base_repo_html_url pr;
          headRepo = (case head_repo_html_url pr of Some u \<Rightarrow> u | None \<Rightarrow> [])
      in
      if baseRepo \<noteq> headRepo then
        skip (skipping prNumber (''base's repo '' @ baseRepo
                @ '' is different from head's repo '' @ headRepo)) s
      else if (case merged_at pr of Some t \<Rightarrow> t \<noteq> [] | None \<Rightarrow> False) then
        skip (skipping prNumber ''already merged'') s
      else if auto_merge pr \<noteq> None then
        skip (skipping prNumber ''auto merge is already activated'') s
      else if draft pr = Some True then
        skip (skipping prNumber ''draft'') s
      else if length (requiredLabels cfg) \<noteq> 0
          \<and> \<not> list_all (\<lambda>label. list_ex (\<lambda>it. toLowerCase it = label) (labels pr))
                (requiredLabels cfg) then
        skip (skipping prNumber (''doesn't have all required labels: ''
                @ join '', '' (requiredLabels cfg))) s
      else
        (let author = (case user_login pr of Some l \<Rightarrow> toLowerCase l | None \<Rightarrow> [])
         in
         if length (authors cfg) \<noteq> 0 \<and> \<not> List.member (authors cfg) author then
           skip (skipping prNumber (''the author '' @ author @ '' if not one of: ''
                   @ join '', '' (authors cfg))) s
         else if mergeable pr = Mergeable False then
           skip (skipping prNumber ''not mergeable'') s
         else requiredChecksThenMerge cfg r prNumber pr s))"

datatype prParam = PrNumber nat | PrObject pull_request

text \<open>
  \<^verbatim>\<open>processPr\<close>: \<^verbatim>\<open>core.group\<close> opens the group, runs the body and closes the group, also
  when the body throws. A number is fetched first.
\<close>

definition processPrGroup ::
  "config \<Rightarrow> remote \<Rightarrow> prParam \<Rightarrow> nat \<Rightarrow> state \<Rightarrow> (error + unit) \<times> state" where
  "processPrGroup cfg r prParam prNumber s =
     (case prParam of
        PrObject pr \<Rightarrow> processPrChecks cfg r prNumber pr s
      | PrNumber n \<Rightarrow>
          (let s1 = emit (Call (PullsGet prNumber)) s
           in case pulls_get r (events s) prNumber of
                Inl e \<Rightarrow> (Inl e, s1)
              | Inr pr \<Rightarrow> processPrChecks cfg r prNumber pr s1))"

definition processPr ::
  "config \<Rightarrow> remote \<Rightarrow> prParam \<Rightarrow> state \<Rightarrow> (error + unit) \<times> state" where
  "processPr cfg r prParam s =
     (let prNumber = (case prParam of PrNumber n \<Rightarrow> n | PrObject pr \<Rightarrow> number pr);
          s1 = emit (StartGroup (''Processing PR #'' @ showNat prNumber)) s
      in case processPrGroup cfg r prParam prNumber s1 of
           (res, s2) \<Rightarrow> (res, emit EndGroup s2))"

section \<open>Loops and the router\<close>

text \<open>
  \<^verbatim>\<open>for (const x of xs) await f(x)\<close>: the elements in order, one after the other; a
  failure of \<open>f\<close> leaves the loop.
\<close>

fun forEach ::
  "('a \<Rightarrow> state \<Rightarrow> (error + unit) \<times> state) \<Rightarrow> 'a list \<Rightarrow> state \<Rightarrow> (error + unit) \<times> state" where
  "forEach f [] s = (Inr (), s)"
| "forEach f (x # xs) s =
     (case f x s of
        (Inl e, s1) \<Rightarrow> (Inl e, s1)
      | (Inr u, s1) \<Rightarrow> forEach f xs s1)"

text \<open>
  \<^verbatim>\<open>processAllPrs\<close>: the loop over \<^verbatim>\<open>octokit.paginate.iterator\<close>. The iterator requests the
  pages of the list one at a time, each when the pull requests of the page before are done;
  \<open>k\<close> pages remain, the next one is \<open>page\<close>. The iterator catches a failed request: an
  error whose status is not 409 is thrown again; for the status 409 it yields a page with
  no data and has no next page, so the loop body runs over nothing and the loop ends.
\<close>

fun processPages ::
  "config \<Rightarrow> remote \<Rightarrow> nat \<Rightarrow> nat \<Rightarrow> state \<Rightarrow> (error + unit) \<times> state" where
  "processPages cfg r page 0 s = (Inr (), s)"
| "processPages cfg r page (Suc k) s =
     (let s1 = emit (Call (PullsList page)) s
      in case pulls_list r (events s) page of
           Inl e \<Rightarrow>
             if status e \<noteq> Some 409 then (Inl e, s1)
             else forEach (\<lambda>pr. processPr cfg r (PrObject pr)) [] s1
         | Inr prs \<Rightarrow>
             (case forEach (\<lambda>pr. processPr cfg r (PrObject pr)) prs s1 of
                (Inl e, s2) \<Rightarrow> (Inl e, s2)
              | (Inr u, s2) \<Rightarrow> processPages cfg r (Suc page) k s2))"

definition processAllPrs :: "config \<Rightarrow> remote \<Rightarrow> state \<Rightarrow> (error + unit) \<times> state" where
  "processAllPrs cfg r s = processPages cfg r 1 (pulls_list_pages r) s"

definition processCheckRunCompletedEvent ::
  "github_context \<Rightarrow> config \<Rightarrow> remote \<Rightarrow> check_run_completed \<Rightarrow> state \<Rightarrow> (error + unit) \<times> state" where
  "processCheckRunCompletedEvent ctx cfg r ev s =
     (if check_run_id ev = runId ctx then
        (Inr (), emit (Debug (''Skipping current check run: '' @ check_run_html_url ev)) s)
      else if action ev \<noteq> ''completed'' then
        (Inr (), emit (Debug (''Skipping check run by action: '' @ quote (action ev))) s)
      else if \<not> List.member [''success'', ''skipped'']
                  (case check_run_conclusion ev of Some c \<Rightarrow> c | None \<Rightarrow> []) then
        (Inr (), emit (Debug (''Skipping check run by conclusion: ''
           @ quote (case check_run_conclusion ev of Some c \<Rightarrow> c | None \<Rightarrow> ''null''))) s)
      else forEach (\<lambda>n. processPr cfg r (PrNumber n)) (check_run_pull_requests ev) s)"

definition processDeploymentStatusCreated ::
  "config \<Rightarrow> remote \<Rightarrow> deployment_status_created \<Rightarrow> state \<Rightarrow> (error + unit) \<times> state" where
  "processDeploymentStatusCreated cfg r ev s =
     (if deployment_status_state ev \<noteq> ''success'' then
        (Inr (), emit (Debug (''Skipping deployment status by state: ''
           @ quote (deployment_status_state ev))) s)
      else processAllPrs cfg r s)"

definition unsupported :: "github_context \<Rightarrow> state \<Rightarrow> (error + unit) \<times> state" where
  "unsupported ctx s =
     (Inr (), emit (Warning (''Unsupported event: '' @ quote (eventName ctx))) s)"

text \<open>
  The \<^verbatim>\<open>try\<close> block of \<^verbatim>\<open>run\<close>. The payload is cast to the type of the event without a
  check; reading \<^verbatim>\<open>event.check_run.id\<close> or \<^verbatim>\<open>event.deployment_status.state\<close> of a payload
  of another shape throws a TypeError.
\<close>

definition dispatch :: "github_context \<Rightarrow> config \<Rightarrow> remote \<Rightarrow> state \<Rightarrow> (error + unit) \<times> state" where
  "dispatch ctx cfg r s =
     (if eventName ctx = ''branch_protection_rule'' then processAllPrs cfg r s
      else if eventName ctx = ''check_run'' then
        (case payload ctx of
           CheckRunPayload ev \<Rightarrow> processCheckRunCompletedEvent ctx cfg r ev s
         | _ \<Rightarrow> (Inl TypeError, s))
      else if eventName ctx = ''deployment_status'' then
        (case payload ctx of
           DeploymentStatusPayload ev \<Rightarrow> processDeploymentStatusCreated cfg r ev s
         | _ \<Rightarrow> (Inl TypeError, s))
      else if eventName ctx = ''pull_request'' then unsupported ctx s
      else if eventName ctx = ''pull_request_review'' then unsupported ctx s
      else if eventName ctx = ''push'' then processAllPrs cfg r s
      else if eventName ctx = ''schedule'' then processAllPrs cfg r s
      else if eventName ctx = ''status'' then unsupported ctx s
      else if eventName ctx = ''workflow_dispatch'' then processAllPrs cfg r s
      else unsupported ctx s)"

text \<open>\<^verbatim>\<open>run\<close>: a failure is reported with \<^verbatim>\<open>core.setFailed\<close> and thrown again.\<close>

definition run :: "github_context \<Rightarrow> config \<Rightarrow> remote \<Rightarrow> state \<Rightarrow> (error + unit) \<times> state" where
  "run ctx cfg r s =
     (case dispatch ctx cfg r s of
        (Inl e, s1) \<Rightarrow> (Inl e, emit (SetFailed e) s1)
      | (Inr u, s1) \<Rightarrow> (Inr u, s1))"

section \<open>The admission order of the specification\<close>

text \<open>
  The specification describes the checks of \<^verbatim>\<open>processPr\<close> as eight admission predicates
  applied in a fixed order. \<open>violates\<close> says when a pull request fails a predicate
  (\<open>hasChecks\<close> is the fact the branch-protection cache gives for the base branch),
  \<open>reason\<close> is the text of the denial after \<^verbatim>\<open>Skipping PR #N: \<close>, and \<open>first_violation\<close>
  is the earliest failing predicate of the order.
\<close>

datatype predicate =
    SameRepository
  | NotMerged
  | AutoMergeNotActivated
  | NotDraft
  | RequiredLabelsPresent
  | AuthorAllowed
  | MergeableNotFalse
  | BaseHasRequiredChecks

definition admission_order :: "predicate list" where
  "admission_order =
     [SameRepository, NotMerged, AutoMergeNotActivated, NotDraft,
      RequiredLabelsPresent, AuthorAllowed, MergeableNotFalse, BaseHasRequiredChecks]"

definition headRepoOf :: "pull_request \<Rightarrow> string" where
  "headRepoOf pr = (case head_repo_html_url pr of Some u \<Rightarrow> u | None \<Rightarrow> [])"

definition authorOf :: "pull_request \<Rightarrow> string" where
  "authorOf pr = (case user_login pr of Some l \<Rightarrow> toLowerCase l | None \<Rightarrow> [])"

fun violates :: "config \<Rightarrow> pull_request \<Rightarrow> bool \<Rightarrow> predicate \<Rightarrow> bool" where
  "violates cfg pr hasChecks SameRepository = (base_repo_html_url pr \<noteq> headRepoOf pr)"
| "violates cfg pr hasChecks NotMerged =
     (case merged_at pr of Some t \<Rightarrow> t \<noteq> [] | None \<Rightarrow> False)"
| "violates cfg pr hasChecks AutoMergeNotActivated = (auto_merge pr \<noteq> None)"
| "violates cfg pr hasChecks NotDraft = (draft pr = Some True)"
| "violates cfg pr hasChecks RequiredLabelsPresent =
     (requiredLabels cfg \<noteq> []
      \<and> \<not> list_all (\<lambda>label. list_ex (\<lambda>it. toLowerCase it = label) (labels pr))
            (requiredLabels cfg))"
| "violates cfg pr hasChecks AuthorAllowed =
     (authors cfg \<noteq> [] \<and> \<not> List.member (authors cfg) (authorOf pr))"
| "violates cfg pr hasChecks MergeableNotFalse = (mergeable pr = Mergeable False)"
| "violates cfg pr hasChecks BaseHasRequiredChecks = (\<not> hasChecks)"

fun reason :: "config \<Rightarrow> pull_request \<Rightarrow> predicate \<Rightarrow> string" where
  "reason cfg pr SameRepository =
     ''base's repo '' @ base_repo_html_url pr @ '' is different from head's repo ''
       @ headRepoOf pr"
| "reason cfg pr NotMerged = ''already merged''"
| "reason cfg pr AutoMergeNotActivated = ''auto merge is already activated''"
| "reason cfg pr NotDraft = ''draft''"
| "reason cfg pr RequiredLabelsPresent =
     ''doesn't have all required labels: '' @ join '', '' (requiredLabels cfg)"
| "reason cfg pr AuthorAllowed =
     ''the author '' @ authorOf pr @ '' if not one of: '' @ join '', '' (authors cfg)"
| "reason cfg pr MergeableNotFalse = ''not mergeable''"
| "reason cfg pr BaseHasRequiredChecks =
     ''the base branch '' @ quote (base_ref pr) @ '' doesn't have required status checks''"

definition first_violation :: "config \<Rightarrow> pull_request \<Rightarrow> bool \<Rightarrow> predicate option" where
  "first_violation cfg pr hasChecks = find (violates cfg pr hasChecks) admission_order"

section \<open>Observations on the events\<close>

text \<open>
  \<open>new_events s s'\<close> are the events of \<open>s'\<close> after those of \<open>s\<close>. The merge call is the
  only call that changes the remote. A predicate on events is \<open>quiet\<close> for a configuration
  when no warning, debug message or call made under that configuration satisfies it.
\<close>

fun isMergeCall :: "event \<Rightarrow> bool" where
  "isMergeCall (Call (PullsMerge n sha m)) = True"
| "isMergeCall e = False"

fun isStartGroup :: "event \<Rightarrow> bool" where
  "isStartGroup (StartGroup name) = True"
| "isStartGroup e = False"

definition new_events :: "state \<Rightarrow> state \<Rightarrow> event list" where
  "new_events s s' = drop (length (events s)) (events s')"

definition quiet :: "config \<Rightarrow> (event \<Rightarrow> bool) \<Rightarrow> bool" where
  "quiet cfg P = ((\<forall>m. \<not> P (Warning m)) \<and> (\<forall>m. \<not> P (Debug m))
      \<and> (\<forall>n. \<not> P (Call (PullsGet n))) \<and> (\<forall>b. \<not> P (Call (ReposGetBranch b)))
      \<and> (\<forall>i. \<not> P (Call (PullsList i)))
      \<and> (\<forall>n sha m. P (Call (PullsMerge n sha m)) \<longrightarrow> dryRun cfg))"

text \<open>
  \<open>thrown_failure r h q\<close> is the failure that the call \<open>q\<close>, sent to the remote \<open>r\<close> after the
  events \<open>h\<close>, throws to the code that sent it, if it throws: the failure the remote
  answers with, except that a page of the list answered with the status 409 throws nothing.
  \<open>first_failure r h evs\<close> walks the events \<open>evs\<close> that follow \<open>h\<close> and returns the first
  failure thrown by one of their calls, with the events after that call.
  \<open>propagates r tails s out\<close> says of a step from \<open>s\<close> with outcome \<open>out\<close>: the step only adds
  events; if one of its calls threw, the outcome is the first such failure and the events
  after that call are one of \<open>tails\<close>; if none threw, the step succeeded.
\<close>

fun thrown_failure :: "remote \<Rightarrow> event list \<Rightarrow> request \<Rightarrow> error option" where
  "thrown_failure r h (PullsGet n) =
     (case pulls_get r h n of Inl e \<Rightarrow> Some e | Inr x \<Rightarrow> None)"
| "thrown_failure r h (ReposGetBranch b) =
     (case repos_getBranch r h b of Inl e \<Rightarrow> Some e | Inr x \<Rightarrow> None)"
| "thrown_failure r h (PullsMerge n sha m) =
     (case pulls_merge r h n sha m of Inl e \<Rightarrow> Some e | Inr x \<Rightarrow> None)"
| "thrown_failure r h (PullsList page) =
     (case pulls_list r h page of
        Inl e \<Rightarrow> if status e \<noteq> Some 409 then Some e else None
      | Inr x \<Rightarrow> None)"

fun first_failure :: "remote \<Rightarrow> event list \<Rightarrow> event list \<Rightarrow> (error \<times> event list) option" where
  "first_failure r h [] = None"
| "first_failure r h (Call q # evs) =
     (case thrown_failure r h q of
        Some e \<Rightarrow> Some (e, evs)
      | None \<Rightarrow> first_failure r (h @ [Call q]) evs)"
| "first_failure r h (x # evs) = first_failure r (h @ [x]) evs"

definition propagates ::
  "remote \<Rightarrow> event list list \<Rightarrow> state \<Rightarrow> (error + 'a) \<times> state \<Rightarrow> bool" where
  "propagates r tails s out =
     (events (snd out) = events s @ new_events s (snd out)
        \<and> (case first_failure r (events s) (new_events s (snd out)) of
              None \<Rightarrow> (\<exists>v. fst out = Inr v)
            | Some (e, rest) \<Rightarrow> fst out = Inl e \<and> rest \<in> set tails))"

section \<open>The dispatch table of the specification\<close>

text \<open>
  The table of the event router, with the guards of the check-run row written out: an event
  goes to the bulk driver over all open pull requests, to the single pull request pipeline
  for a list of numbers, or to nothing but one diagnostic. A check-run or deployment-status
  event whose payload has not the shape of its kind is malformed: reading it throws.
  \<open>perform\<close> is what each route does.
\<close>

datatype route = BulkDriver | SinglePipeline "nat list" | NoOp event | Malformed

definition route_of :: "github_context \<Rightarrow> route" where
  "route_of ctx =
     (if eventName ctx \<in> {''branch_protection_rule'', ''push'', ''schedule'', ''workflow_dispatch''}
      then BulkDriver
      else if eventName ctx = ''deployment_status'' then
        (case payload ctx of
           DeploymentStatusPayload ev \<Rightarrow>
             if deployment_status_state ev = ''success'' then BulkDriver
             else NoOp (Debug (''Skipping deployment status by state: ''
                    @ quote (deployment_status_state ev)))
         | _ \<Rightarrow> Malformed)
      else if eventName ctx = ''check_run'' then
        (case payload ctx of
           CheckRunPayload ev \<Rightarrow>
             if check_run_id ev = runId ctx then
               NoOp (Debug (''Skipping current check run: '' @ check_run_html_url ev))
             else if action ev \<noteq> ''completed'' then
               NoOp (Debug (''Skipping check run by action: '' @ quote (action ev)))
             else if check_run_conclusion ev \<notin> {Some ''success'', Some ''skipped''} then
               NoOp (Debug (''Skipping check run by conclusion: ''
                 @ quote (case check_run_conclusion ev of Some c \<Rightarrow> c | None \<Rightarrow> ''null'')))
             else SinglePipeline (check_run_pull_requests ev)
         | _ \<Rightarrow> Malformed)
      else NoOp (Warning (''Unsupported event: '' @ quote (eventName ctx))))"

fun perform :: "config \<Rightarrow> remote \<Rightarrow> route \<Rightarrow> state \<Rightarrow> (error + unit) \<times> state" where
  "perform cfg r BulkDriver s = processAllPrs cfg r s"
| "perform cfg r (SinglePipeline ns) s = forEach (\<lambda>n. processPr cfg r (PrNumber n)) ns s"
| "perform cfg r (NoOp d) s = (Inr (), emit d s)"
| "perform cfg r Malformed s = (Inl TypeError, s)"

section \<open>Example inputs\<close>

definition main_protected :: branch where
  "main_protected =
     \<lparr> protection_enabled = Some True, required_status_checks_checks = Some [''ci''] \<rparr>"

definition main_unprotected :: branch where
  "main_unprotected =
     \<lparr> protection_enabled = Some False, required_status_checks_checks = None \<rparr>"

text \<open>A remote with no pull request to fetch and one empty page, whose branches all look like \<open>b\<close>.\<close>

definition remote_with_branch :: "branch \<Rightarrow> remote" where
  "remote_with_branch b =
     \<lparr> pulls_get = (\<lambda>h n. Inl (RemoteError 404 ''Not Found'')),
       repos_getBranch = (\<lambda>h name. Inr b),
       pulls_merge = (\<lambda>h n sha m. Inr ()),
       pulls_list = (\<lambda>h page. Inr []),
       pulls_list_pages = 1 \<rparr>"

definition no_requirements :: config where
  "no_requirements =
     \<lparr> requiredLabels = [], authors = [], preferredMergeOption = [], dryRun = False \<rparr>"

text \<open>A pull request of the repository itself that is merged, has auto-merge on and is a draft.\<close>

definition pr_merged_auto_draft :: pull_request where
  "pr_merged_auto_draft =
     \<lparr> number = 7, base_ref = ''main'', base_repo_html_url = ''https://github.com/o/r'',
       head_repo_html_url = Some ''https://github.com/o/r'', head_sha = ''abc123'',
       merged_at = Some ''2024-01-01T00:00:00Z'', auto_merge = Some ''squash'',
       draft = Some True, labels = [], user_login = Some ''octocat'',
       mergeable = MergeableAbsent \<rparr>"

text \<open>A configuration read from inputs that ask for two labels, and a pull request with one.\<close>

definition labels_ready_approved :: config where
  "labels_ready_approved =
     readConfig \<lparr> input_requiredLabels = ''ready, Approved'', input_authors = [],
                  input_preferredMergeOption = [], input_dryRun = [] \<rparr>"

definition pr_ready :: pull_request where
  "pr_ready =
     \<lparr> number = 8, base_ref = ''main'', base_repo_html_url = ''https://github.com/o/r'',
       head_repo_html_url = Some ''https://github.com/o/r'', head_sha = ''abc123'',
       merged_at = None, auto_merge = None,
       draft = Some False, labels = [''Ready''], user_login = Some ''octocat'',
       mergeable = MergeableAbsent \<rparr>"

text \<open>A fetched pull request that is not mergeable, and a configuration with two authors.\<close>

definition pr_fetched :: pull_request where
  "pr_fetched =
     \<lparr> number = 9, base_ref = ''main'', base_repo_html_url = ''https://github.com/o/r'',
       head_repo_html_url = Some ''https://github.com/o/r'', head_sha = ''def456'',
       merged_at = None, auto_merge = None,
       draft = Some False, labels = [], user_login = Some ''octocat'',
       mergeable = Mergeable False \<rparr>"

definition authors_octocat :: config where
  "authors_octocat =
     readConfig \<lparr> input_requiredLabels = [], input_authors = ''OctoCat; dependabot[bot]'',
                  input_preferredMergeOption = ''squash'', input_dryRun = ''TRUE'' \<rparr>"

text \<open>A remote whose list of open pull requests has one page, and a push event.\<close>

definition remote_listing :: "pull_request list \<Rightarrow> remote" where
  "remote_listing prs =
     \<lparr> pulls_get = (\<lambda>h n. Inl (RemoteError 404 ''Not Found'')),
       repos_getBranch = (\<lambda>h name. Inr main_protected),
       pulls_merge = (\<lambda>h n sha m. Inr ()),
       pulls_list = (\<lambda>h page. Inr prs),
       pulls_list_pages = 1 \<rparr>"

definition push_event :: github_context where
  "push_event = \<lparr> eventName = ''push'', runId = 1000, payload = OtherPayload \<rparr>"

text \<open>
  A remote that refuses every merge; a remote that answers every page of the list with the
  status 409; a remote that has every pull request asked for; two
  check-run payloads, one failed and one passed, and the event that carries them.
\<close>

definition remote_conflict :: "pull_request list \<Rightarrow> remote" where
  "remote_conflict prs =
     \<lparr> pulls_get = (\<lambda>h n. Inl (RemoteError 404 ''Not Found'')),
       repos_getBranch = (\<lambda>h name. Inr main_protected),
       pulls_merge = (\<lambda>h n sha m. Inl (RemoteError 409 ''Conflict'')),
       pulls_list = (\<lambda>h page. Inr prs),
       pulls_list_pages = 1 \<rparr>"

definition remote_list_conflict :: remote where
  "remote_list_conflict =
     \<lparr> pulls_get = (\<lambda>h n. Inl (RemoteError 404 ''Not Found'')),
       repos_getBranch = (\<lambda>h name. Inr main_protected),
       pulls_merge = (\<lambda>h n sha m. Inr ()),
       pulls_list = (\<lambda>h page. Inl (RemoteError 409 ''Conflict'')),
       pulls_list_pages = 1 \<rparr>"

definition remote_fetching :: remote where
  "remote_fetching =
     \<lparr> pulls_get = (\<lambda>h n. Inr (pr_ready\<lparr> number := n \<rparr>)),
       repos_getBranch = (\<lambda>h name. Inr main_protected),
       pulls_merge = (\<lambda>h n sha m. Inr ()),
       pulls_list = (\<lambda>h page. Inr []),
       pulls_list_pages = 1 \<rparr>"

definition failure_payload :: check_run_completed where
  "failure_payload =
     \<lparr> action = ''completed'', check_run_id = 55,
       check_run_html_url = ''https://github.com/o/r/runs/55'',
       check_run_conclusion = Some ''failure'', check_run_pull_requests = [7] \<rparr>"

definition success_payload :: check_run_completed where
  "success_payload =
     \<lparr> action = ''completed'', check_run_id = 55,
       check_run_html_url = ''https://github.com/o/r/runs/55'',
       check_run_conclusion = Some ''success'', check_run_pull_requests = [7, 12] \<rparr>"

definition check_run_event :: "check_run_completed \<Rightarrow> github_context" where
  "check_run_event ev = \<lparr> eventName = ''check_run'', runId = 1000, payload = CheckRunPayload ev \<rparr>"

section \<open>Lemmas\<close>

lemma processPrChecks_first_violation:
  assumes "doesBranchHaveRequiredChecks r (base_ref pr) s = (Inr hasChecks, s1)"
  shows "processPrChecks cfg r n pr s =
     (case first_violation cfg pr hasChecks of
        None \<Rightarrow> mergePr cfg r n pr s1
      | Some p \<Rightarrow>
          skip (skipping n (reason cfg pr p)) (if p = BaseHasRequiredChecks then s1 else s))"
  using assms
  by (simp add: processPrChecks_def requiredChecksThenMerge_def first_violation_def
      admission_order_def headRepoOf_def authorOf_def Let_def)

lemma reason_inj: "reason cfg pr p = reason cfg pr q \<Longrightarrow> p = q"
  by (cases p; cases q; simp add: quote_def)

subsection \<open>Denials\<close>

lemma skipping_inj: "skipping n a = skipping n b \<longleftrightarrow> a = b"
  by (simp add: skipping_def)

lemma skip_eq: "skip a s = skip b s \<longleftrightarrow> a = b"
  by (auto simp: skip_def emit_def dest: arg_cong [where f = events])

lemma processPrChecks_early:
  "processPrChecks cfg r n pr s =
     (case find (violates cfg pr h) (butlast admission_order) of
        None \<Rightarrow> requiredChecksThenMerge cfg r n pr s
      | Some p \<Rightarrow> skip (skipping n (reason cfg pr p)) s)"
  by (simp add: processPrChecks_def admission_order_def headRepoOf_def authorOf_def Let_def)

lemma lookup_events:
  "events (snd (doesBranchHaveRequiredChecks r b s)) = events s
   \<or> events (snd (doesBranchHaveRequiredChecks r b s)) = events s @ [Call (ReposGetBranch b)]"
  by (auto simp: doesBranchHaveRequiredChecks_def emit_def Let_def split: option.splits sum.splits)

lemma requiredChecksThenMerge_not_early_skip:
  assumes "p \<noteq> BaseHasRequiredChecks"
  shows "requiredChecksThenMerge cfg r n pr s \<noteq> skip (skipping n (reason cfg pr p)) s"
proof (cases "doesBranchHaveRequiredChecks r (base_ref pr) s")
  case (Pair res s1)
  have ev: "events s1 = events s \<or> events s1 = events s @ [Call (ReposGetBranch (base_ref pr))]"
    using lookup_events [of r "base_ref pr" s] Pair by simp
  have ne: "reason cfg pr BaseHasRequiredChecks \<noteq> reason cfg pr p"
    using assms reason_inj [of cfg pr BaseHasRequiredChecks p] by blast
  show ?thesis
  proof (cases res)
    case (Inl e)
    then show ?thesis using Pair by (simp add: requiredChecksThenMerge_def skip_def)
  next
    case (Inr b)
    have "events (snd (skip (skipping n (reason cfg pr BaseHasRequiredChecks)) s1))
          \<noteq> events (snd (skip (skipping n (reason cfg pr p)) s))"
      using ev ne by (auto simp: skip_def emit_def skipping_inj simp del: reason.simps)
    moreover have "events (snd (mergePr cfg r n pr s1))
          \<noteq> events (snd (skip (skipping n (reason cfg pr p)) s))"
      using ev by (auto simp: skip_def emit_def mergePr_def Let_def skipping_def split: sum.splits)
    ultimately show ?thesis using Pair Inr
      by (auto simp add: requiredChecksThenMerge_def)
  qed
qed

lemma denied_iff:
  assumes "p \<noteq> BaseHasRequiredChecks"
  shows "processPrChecks cfg r n pr s = skip (skipping n (reason cfg pr p)) s
     \<longleftrightarrow> find (violates cfg pr h) (butlast admission_order) = Some p"
proof (cases "find (violates cfg pr h) (butlast admission_order)")
  case None
  then show ?thesis
    using requiredChecksThenMerge_not_early_skip [OF assms, of cfg r n pr s]
    by (simp add: processPrChecks_early [of cfg r n pr s h] del: reason.simps)
next
  case (Some q)
  then show ?thesis
    using reason_inj [of cfg pr q p]
    by (auto simp add: processPrChecks_early [of cfg r n pr s h] skip_eq skipping_inj
        simp del: reason.simps)
qed

subsection \<open>The configuration lists\<close>

lemma toLowerCaseChar_idem: "toLowerCaseChar (toLowerCaseChar c) = toLowerCaseChar c"
  by (auto simp: toLowerCaseChar_def isUpperCase_def Let_def)

lemma toLowerCase_idem: "toLowerCase (toLowerCase s) = toLowerCase s"
  by (simp add: toLowerCase_def toLowerCaseChar_idem)

lemma parseList_elem:
  "x \<in> set (parseList raw) \<Longrightarrow> x \<noteq> [] \<and> toLowerCase x = x"
  by (auto simp: parseList_def toLowerCase_idem)

lemma labels_match_parseList:
  "list_all (\<lambda>label. list_ex (\<lambda>it. toLowerCase it = label) names) (parseList raw)
   = list_all (\<lambda>label. list_ex (\<lambda>it. toLowerCase it = toLowerCase label) names) (parseList raw)"
  by (rule list_all_cong [OF refl]) (simp add: parseList_elem)

lemma find_labels:
  "find (violates cfg pr h) (butlast admission_order) = Some RequiredLabelsPresent
   \<longleftrightarrow> \<not> violates cfg pr h SameRepository \<and> \<not> violates cfg pr h NotMerged
       \<and> \<not> violates cfg pr h AutoMergeNotActivated \<and> \<not> violates cfg pr h NotDraft
       \<and> violates cfg pr h RequiredLabelsPresent"
  by (simp add: admission_order_def del: violates.simps)

lemma mergePr_requiredLabels:
  "mergePr (cfg\<lparr> requiredLabels := x \<rparr>) r n pr s = mergePr cfg r n pr s"
  by (simp add: mergePr_def Let_def split: sum.splits)

lemma requiredChecksThenMerge_requiredLabels:
  "requiredChecksThenMerge (cfg\<lparr> requiredLabels := x \<rparr>) r n pr s
     = requiredChecksThenMerge cfg r n pr s"
  by (simp add: requiredChecksThenMerge_def mergePr_requiredLabels split: prod.splits sum.splits)

subsection \<open>Values of the string functions\<close>

lemma parse_ready_approved: "parseList ''ready, Approved'' = [''ready'', ''approved'']"
  by code_simp

lemma parse_empty: "parseList [] = []"
  by code_simp

lemma lower_Ready: "toLowerCase ''Ready'' = ''ready''"
  by code_simp

lemma lower_APPROVED: "toLowerCase ''APPROVED'' = ''approved''"
  by code_simp

lemma lower_empty: "toLowerCase [] = []"
  by code_simp

subsection \<open>Which check denies\<close>

lemma find_mergeable:
  "find (violates cfg pr h) (butlast admission_order) = Some MergeableNotFalse
   \<longleftrightarrow> \<not> violates cfg pr h SameRepository \<and> \<not> violates cfg pr h NotMerged
       \<and> \<not> violates cfg pr h AutoMergeNotActivated \<and> \<not> violates cfg pr h NotDraft
       \<and> \<not> violates cfg pr h RequiredLabelsPresent \<and> \<not> violates cfg pr h AuthorAllowed
       \<and> violates cfg pr h MergeableNotFalse"
  by (simp add: admission_order_def del: violates.simps)

lemma find_none:
  "find (violates cfg pr h) (butlast admission_order) = None
   \<longleftrightarrow> \<not> violates cfg pr h SameRepository \<and> \<not> violates cfg pr h NotMerged
       \<and> \<not> violates cfg pr h AutoMergeNotActivated \<and> \<not> violates cfg pr h NotDraft
       \<and> \<not> violates cfg pr h RequiredLabelsPresent \<and> \<not> violates cfg pr h AuthorAllowed
       \<and> \<not> violates cfg pr h MergeableNotFalse"
  by (simp add: admission_order_def del: violates.simps)

lemma find_author:
  "find (violates cfg pr h) (butlast admission_order) = Some AuthorAllowed
   \<longleftrightarrow> \<not> violates cfg pr h SameRepository \<and> \<not> violates cfg pr h NotMerged
       \<and> \<not> violates cfg pr h AutoMergeNotActivated \<and> \<not> violates cfg pr h NotDraft
       \<and> \<not> violates cfg pr h RequiredLabelsPresent \<and> violates cfg pr h AuthorAllowed"
  by (simp add: admission_order_def del: violates.simps)

lemma find_Some_if_violates:
  "violates cfg pr h AuthorAllowed
   \<Longrightarrow> \<exists>p. find (violates cfg pr h) (butlast admission_order) = Some p"
  by (simp add: admission_order_def del: violates.simps)

lemma parse_authors: "parseList ''OctoCat; dependabot[bot]'' = [''octocat'', ''dependabot[bot]'']"
  by code_simp

subsection \<open>Entries of the cache stay\<close>

lemma cache_doesBranch:
  "doesBranchHaveRequiredChecksCache s b = Some v
   \<Longrightarrow> doesBranchHaveRequiredChecksCache (snd (doesBranchHaveRequiredChecks r b' s)) b = Some v"
  by (auto simp: doesBranchHaveRequiredChecks_def emit_def Let_def split: option.splits sum.splits)

lemma cache_mergePr:
  "doesBranchHaveRequiredChecksCache (snd (mergePr cfg r n pr s))
     = doesBranchHaveRequiredChecksCache s"
  by (simp add: mergePr_def emit_def Let_def split: sum.splits)

lemma cache_skip:
  "doesBranchHaveRequiredChecksCache (snd (skip msg s)) = doesBranchHaveRequiredChecksCache s"
  by (simp add: skip_def emit_def)

lemma cache_requiredChecksThenMerge:
  assumes "doesBranchHaveRequiredChecksCache s b = Some v"
  shows "doesBranchHaveRequiredChecksCache (snd (requiredChecksThenMerge cfg r n pr s)) b = Some v"
proof (cases "doesBranchHaveRequiredChecks r (base_ref pr) s")
  case (Pair res s1)
  have "doesBranchHaveRequiredChecksCache s1 b = Some v"
    using cache_doesBranch [OF assms, of r "base_ref pr"] Pair by simp
  then show ?thesis
    using Pair by (cases res) (auto simp: requiredChecksThenMerge_def cache_mergePr cache_skip)
qed

lemma cache_processPrChecks:
  assumes "doesBranchHaveRequiredChecksCache s b = Some v"
  shows "doesBranchHaveRequiredChecksCache (snd (processPrChecks cfg r n pr s)) b = Some v"
  using assms cache_requiredChecksThenMerge [OF assms]
  by (simp add: processPrChecks_early [of cfg r n pr s True] cache_skip split: option.splits
      del: reason.simps)

lemma cache_processPrGroup:
  assumes "doesBranchHaveRequiredChecksCache s b = Some v"
  shows "doesBranchHaveRequiredChecksCache (snd (processPrGroup cfg r p n s)) b = Some v"
proof (cases p)
  case (PrObject pr)
  then show ?thesis using cache_processPrChecks [OF assms] by (simp add: processPrGroup_def)
next
  case (PrNumber k)
  have "doesBranchHaveRequiredChecksCache (emit (Call (PullsGet n)) s) b = Some v"
    using assms by (simp add: emit_def)
  then show ?thesis
    using PrNumber cache_processPrChecks [of "emit (Call (PullsGet n)) s" b v cfg r n]
    by (simp add: processPrGroup_def Let_def split: sum.splits)
qed

lemma cache_processPr:
  assumes "doesBranchHaveRequiredChecksCache s b = Some v"
  shows "doesBranchHaveRequiredChecksCache (snd (processPr cfg r p s)) b = Some v"
proof -
  define n where "n = (case p of PrNumber n \<Rightarrow> n | PrObject pr \<Rightarrow> number pr)"
  define s1 where "s1 = emit (StartGroup (''Processing PR #'' @ showNat n)) s"
  have "doesBranchHaveRequiredChecksCache s1 b = Some v"
    using assms by (simp add: s1_def emit_def)
  then have "doesBranchHaveRequiredChecksCache (snd (processPrGroup cfg r p n s1)) b = Some v"
    by (rule cache_processPrGroup)
  moreover have "processPr cfg r p s
      = (fst (processPrGroup cfg r p n s1), emit EndGroup (snd (processPrGroup cfg r p n s1)))"
    by (simp add: processPr_def n_def s1_def Let_def split: prod.splits)
  ultimately show ?thesis by (simp add: emit_def)
qed

lemma cache_forEach:
  assumes "doesBranchHaveRequiredChecksCache s b = Some v"
  shows "doesBranchHaveRequiredChecksCache (snd (forEach (processPr cfg r) ps s)) b = Some v"
  using assms
proof (induction ps arbitrary: s)
  case Nil
  then show ?case by simp
next
  case (Cons p ps)
  show ?case
  proof (cases "processPr cfg r p s")
    case (Pair res s1)
    have "doesBranchHaveRequiredChecksCache s1 b = Some v"
      using cache_processPr [OF Cons.prems, of cfg r p] Pair by simp
    then show ?thesis using Pair Cons.IH [of s1] by (cases res) auto
  qed
qed

subsection \<open>Events that a step does not add\<close>

lemma quiet_isMergeCall: "dryRun cfg \<Longrightarrow> quiet cfg isMergeCall"
  by (simp add: quiet_def)

lemma quiet_isStartGroup: "quiet cfg isStartGroup"
  by (simp add: quiet_def)

lemma filter_doesBranch:
  "quiet cfg P \<Longrightarrow>
   filter P (events (snd (doesBranchHaveRequiredChecks r b s))) = filter P (events s)"
  by (auto simp: quiet_def doesBranchHaveRequiredChecks_def emit_def Let_def
      split: option.splits sum.splits)

lemma filter_mergePr:
  "quiet cfg P \<Longrightarrow> filter P (events (snd (mergePr cfg r n pr s))) = filter P (events s)"
  by (auto simp: quiet_def mergePr_def emit_def Let_def split: sum.splits)

lemma filter_skip:
  "quiet cfg P \<Longrightarrow> filter P (events (snd (skip msg s))) = filter P (events s)"
  by (simp add: quiet_def skip_def emit_def)

lemma filter_requiredChecksThenMerge:
  assumes "quiet cfg P"
  shows "filter P (events (snd (requiredChecksThenMerge cfg r n pr s))) = filter P (events s)"
proof (cases "doesBranchHaveRequiredChecks r (base_ref pr) s")
  case (Pair res s1)
  have "filter P (events s1) = filter P (events s)"
    using filter_doesBranch [OF assms, of r "base_ref pr" s] Pair by simp
  then show ?thesis
    using Pair filter_mergePr [OF assms, of r n pr s1] filter_skip [OF assms, of _ s1]
    by (cases res) (auto simp: requiredChecksThenMerge_def)
qed

lemma filter_processPrChecks:
  assumes "quiet cfg P"
  shows "filter P (events (snd (processPrChecks cfg r n pr s))) = filter P (events s)"
  using filter_requiredChecksThenMerge [OF assms] filter_skip [OF assms]
  by (simp add: processPrChecks_early [of cfg r n pr s True] split: option.splits
      del: reason.simps)

lemma filter_processPrGroup:
  assumes "quiet cfg P"
  shows "filter P (events (snd (processPrGroup cfg r p n s))) = filter P (events s)"
proof (cases p)
  case (PrObject pr)
  then show ?thesis by (simp add: processPrGroup_def filter_processPrChecks [OF assms])
next
  case (PrNumber k)
  have "filter P (events (emit (Call (PullsGet n)) s)) = filter P (events s)"
    using assms by (simp add: quiet_def emit_def)
  then show ?thesis
    using PrNumber filter_processPrChecks [OF assms, of r n _ "emit (Call (PullsGet n)) s"]
    by (simp add: processPrGroup_def Let_def split: sum.splits)
qed

lemma filter_processPr:
  assumes "quiet cfg P"
  shows "filter P (events (snd (processPr cfg r p s)))
     = filter P (events s)
       @ filter P [StartGroup (''Processing PR #''
            @ showNat (case p of PrNumber n \<Rightarrow> n | PrObject pr \<Rightarrow> number pr)), EndGroup]"
proof -
  define n where "n = (case p of PrNumber n \<Rightarrow> n | PrObject pr \<Rightarrow> number pr)"
  define s1 where "s1 = emit (StartGroup (''Processing PR #'' @ showNat n)) s"
  have "filter P (events (snd (processPrGroup cfg r p n s1))) = filter P (events s1)"
    by (rule filter_processPrGroup [OF assms])
  moreover have "processPr cfg r p s
      = (fst (processPrGroup cfg r p n s1), emit EndGroup (snd (processPrGroup cfg r p n s1)))"
    by (simp add: processPr_def n_def s1_def Let_def split: prod.splits)
  ultimately show ?thesis
    by (simp add: emit_def s1_def n_def)
qed

lemma no_merge_forEach:
  assumes "\<And>x s. filter P (events (snd (f x s))) = filter P (events s)"
  shows "filter P (events (snd (forEach f xs s))) = filter P (events s)"
proof (induction xs arbitrary: s)
  case Nil
  show ?case by simp
next
  case (Cons x xs)
  show ?case
  proof (cases "f x s")
    case (Pair res s1)
    then show ?thesis
      using assms [of x s] Cons.IH [of s1] by (cases res) auto
  qed
qed

lemma no_merge_processPr:
  "dryRun cfg \<Longrightarrow> filter isMergeCall (events (snd (processPr cfg r p s))) = filter isMergeCall (events s)"
  using filter_processPr [OF quiet_isMergeCall, of cfg r p s] by simp

lemma no_merge_processPages:
  assumes "dryRun cfg"
  shows "filter isMergeCall (events (snd (processPages cfg r page k s)))
     = filter isMergeCall (events s)"
proof (induction k arbitrary: page s)
  case 0
  show ?case by simp
next
  case (Suc k)
  define s1 where "s1 = emit (Call (PullsList page)) s"
  have a: "filter isMergeCall (events s1) = filter isMergeCall (events s)"
    by (simp add: s1_def emit_def)
  show ?case
  proof (cases "pulls_list r (events s) page")
    case (Inl e)
    then show ?thesis using a by (simp add: s1_def Let_def)
  next
    case (Inr prs)
    show ?thesis
    proof (cases "forEach (\<lambda>pr. processPr cfg r (PrObject pr)) prs s1")
      case (Pair res s2)
      have "filter isMergeCall (events s2) = filter isMergeCall (events s1)"
        using no_merge_forEach [of isMergeCall "\<lambda>pr. processPr cfg r (PrObject pr)" prs s1]
          no_merge_processPr [OF assms] Pair by simp
      then show ?thesis
        using Inr Pair a Suc.IH [of "Suc page" s2] by (cases res) (auto simp: s1_def)
    qed
  qed
qed

lemma no_merge_dispatch:
  assumes "dryRun cfg"
  shows "filter isMergeCall (events (snd (dispatch ctx cfg r s))) = filter isMergeCall (events s)"
proof -
  have a: "filter isMergeCall (events (snd (processAllPrs cfg r s))) = filter isMergeCall (events s)"
    by (simp add: processAllPrs_def no_merge_processPages [OF assms])
  have b: "filter isMergeCall (events (snd (unsupported ctx s))) = filter isMergeCall (events s)"
    by (simp add: unsupported_def emit_def)
  have c: "filter isMergeCall (events (snd (processCheckRunCompletedEvent ctx cfg r ev s)))
      = filter isMergeCall (events s)" for ev
    using no_merge_forEach [of isMergeCall "\<lambda>n. processPr cfg r (PrNumber n)" _ s]
      no_merge_processPr [OF assms]
    by (simp add: processCheckRunCompletedEvent_def emit_def)
  have d: "filter isMergeCall (events (snd (processDeploymentStatusCreated cfg r ev s)))
      = filter isMergeCall (events s)" for ev
    using a by (simp add: processDeploymentStatusCreated_def emit_def)
  show ?thesis
    using a b c d by (simp add: dispatch_def split: payload.splits)
qed

lemma no_merge_run:
  assumes "dryRun cfg"
  shows "filter isMergeCall (events (snd (run ctx cfg r s))) = filter isMergeCall (events s)"
  using no_merge_dispatch [OF assms, of ctx r s]
  by (cases "dispatch ctx cfg r s") (auto simp: run_def emit_def split: sum.splits)

lemma lower_TRUE: "toLowerCase ''TRUE'' = ''true''"
  by code_simp

lemma lower_octocat: "toLowerCase ''octocat'' = ''octocat''"
  by code_simp

lemma authors_octocat_eq:
  "authors_octocat = \<lparr> requiredLabels = [], authors = [''octocat'', ''dependabot[bot]''],
       preferredMergeOption = ''squash'', dryRun = True \<rparr>"
  by (simp add: authors_octocat_def readConfig_def parse_authors parse_empty lower_TRUE)

subsection \<open>Failures of the remote\<close>

lemma first_failure_append:
  "first_failure r h (a @ b) =
     (case first_failure r h a of
        Some (e, rest) \<Rightarrow> Some (e, rest @ b)
      | None \<Rightarrow> first_failure r (h @ a) b)"
  by (induction r h a rule: first_failure.induct) (auto split: option.splits)

lemma propagates_doesBranch:
  "propagates r [[]] s (doesBranchHaveRequiredChecks r b s)"
  by (auto simp: propagates_def new_events_def doesBranchHaveRequiredChecks_def emit_def Let_def
      split: option.splits sum.splits)

lemma propagates_mergePr:
  "propagates r [[]] s (mergePr cfg r n pr s)"
  by (auto simp: propagates_def new_events_def mergePr_def emit_def Let_def
      split: option.splits sum.splits)

lemma propagates_skip: "propagates r tails s (skip msg s)"
  by (simp add: propagates_def new_events_def skip_def emit_def)

lemma propagates_seq:
  assumes "propagates r tails s (Inr v, s1)" and "propagates r tails s1 out"
  shows "propagates r tails s out"
proof -
  define ev1 where "ev1 = new_events s s1"
  define ev2 where "ev2 = new_events s1 (snd out)"
  from assms(1) have e1: "events s1 = events s @ ev1"
    and f1: "first_failure r (events s) ev1 = None"
    by (auto simp: propagates_def ev1_def split: option.splits)
  from assms(2) have e2: "events (snd out) = events s1 @ ev2"
    and f2: "case first_failure r (events s1) ev2 of
              None \<Rightarrow> (\<exists>v. fst out = Inr v)
            | Some (e, rest) \<Rightarrow> fst out = Inl e \<and> rest \<in> set tails"
    by (auto simp: propagates_def ev2_def)
  have n: "new_events s (snd out) = ev1 @ ev2"
    using e1 e2 by (simp add: new_events_def)
  have "first_failure r (events s) (ev1 @ ev2) = first_failure r (events s1) ev2"
    using f1 e1 by (simp add: first_failure_append)
  then show ?thesis using f2 n e1 e2 unfolding propagates_def by simp
qed

lemma propagates_Inl:
  "propagates r tails s (Inl e :: error + 'a, s1)
   \<Longrightarrow> propagates r tails s (Inl e :: error + 'b, s1)"
  by (auto simp: propagates_def split: option.splits)

lemma propagates_requiredChecksThenMerge:
  "propagates r [[]] s (requiredChecksThenMerge cfg r n pr s)"
proof (cases "doesBranchHaveRequiredChecks r (base_ref pr) s")
  case (Pair res s1)
  have d: "propagates r [[]] s (res, s1)"
    using propagates_doesBranch [of r s "base_ref pr"] Pair by simp
  show ?thesis
  proof (cases res)
    case (Inl e)
    then have "propagates r [[]] s (Inl e :: error + unit, s1)"
      using d by (simp add: propagates_Inl)
    then show ?thesis using Inl Pair
      by (simp add: requiredChecksThenMerge_def)
  next
    case (Inr hasChecks)
    have m: "propagates r [[]] s (mergePr cfg r n pr s1)"
      using d propagates_mergePr [of r s1 cfg n pr] unfolding Inr by (rule propagates_seq)
    have k: "propagates r [[]] s (skip msg s1)" for msg
      using d propagates_skip [of r "[[]]" s1 msg] unfolding Inr by (rule propagates_seq)
    show ?thesis using Pair Inr m k
      by (simp add: requiredChecksThenMerge_def)
  qed
qed

lemma propagates_processPrChecks:
  "propagates r [[]] s (processPrChecks cfg r n pr s)"
  by (simp add: processPrChecks_early [of cfg r n pr s True] propagates_skip
      propagates_requiredChecksThenMerge split: option.splits del: reason.simps)

lemma propagates_tails:
  "propagates r tails s out \<Longrightarrow> set tails \<subseteq> set tails' \<Longrightarrow> propagates r tails' s out"
  by (auto simp: propagates_def split: option.splits)

lemma propagates_emit_after:
  assumes "propagates r [[]] s out" and "\<forall>q. x \<noteq> Call q"
  shows "propagates r [[x]] s (fst out, emit x (snd out))"
proof -
  define ev where "ev = new_events s (snd out)"
  from assms(1) have e: "events (snd out) = events s @ ev"
    and f: "case first_failure r (events s) ev of
              None \<Rightarrow> (\<exists>v. fst out = Inr v)
            | Some (e, rest) \<Rightarrow> fst out = Inl e \<and> rest = []"
    by (auto simp: propagates_def ev_def split: option.splits)
  have n: "new_events s (emit x (snd out)) = ev @ [x]"
    using e by (simp add: new_events_def emit_def)
  have x: "first_failure r h [x] = None" for h
    using assms(2) by (cases x) auto
  show ?thesis using f n e x
    by (auto simp: propagates_def emit_def first_failure_append split: option.splits)
qed

lemma propagates_emit_before:
  assumes "propagates r tails (emit x s) out" and "\<forall>q. x \<noteq> Call q"
  shows "propagates r tails s out"
proof -
  have "propagates r tails s (Inr (), emit x s)"
    using assms(2) by (cases x) (auto simp: propagates_def new_events_def emit_def)
  then show ?thesis using assms(1) by (rule propagates_seq)
qed

lemma propagates_emit_only:
  assumes "\<forall>q. x \<noteq> Call q"
  shows "propagates r tails s (Inr v, emit x s)"
  using assms by (cases x) (auto simp: propagates_def new_events_def emit_def)

lemma propagates_processPrGroup:
  "propagates r [[]] s (processPrGroup cfg r p n s)"
proof (cases p)
  case (PrObject pr)
  then show ?thesis by (simp add: processPrGroup_def propagates_processPrChecks)
next
  case (PrNumber k)
  show ?thesis
  proof (cases "pulls_get r (events s) n")
    case (Inl e)
    then show ?thesis using PrNumber
      by (simp add: processPrGroup_def propagates_def new_events_def emit_def)
  next
    case (Inr pr)
    have "propagates r [[]] s (Inr (), emit (Call (PullsGet n)) s)"
      using Inr by (simp add: propagates_def new_events_def emit_def)
    then have "propagates r [[]] s (processPrChecks cfg r n pr (emit (Call (PullsGet n)) s))"
      using propagates_processPrChecks by (rule propagates_seq)
    then show ?thesis using PrNumber Inr by (simp add: processPrGroup_def)
  qed
qed

lemma propagates_processPr:
  "propagates r [[EndGroup]] s (processPr cfg r p s)"
proof -
  define n where "n = (case p of PrNumber n \<Rightarrow> n | PrObject pr \<Rightarrow> number pr)"
  define s1 where "s1 = emit (StartGroup (''Processing PR #'' @ showNat n)) s"
  define out where "out = processPrGroup cfg r p n s1"
  have "propagates r [[]] s1 out"
    unfolding out_def by (rule propagates_processPrGroup)
  then have "propagates r [[EndGroup]] s1 (fst out, emit EndGroup (snd out))"
    by (rule propagates_emit_after) simp
  then have "propagates r [[EndGroup]] s (fst out, emit EndGroup (snd out))"
    unfolding s1_def by (rule propagates_emit_before) simp
  moreover have "processPr cfg r p s = (fst out, emit EndGroup (snd out))"
    by (simp add: processPr_def n_def s1_def out_def Let_def split: prod.splits)
  ultimately show ?thesis by simp
qed

lemma propagates_forEach:
  assumes "\<And>x s. propagates r tails s (f x s)"
  shows "propagates r tails s (forEach f xs s)"
proof (induction xs arbitrary: s)
  case Nil
  show ?case by (simp add: propagates_def new_events_def)
next
  case (Cons x xs)
  show ?case
  proof (cases "f x s")
    case (Pair res s1)
    show ?thesis
    proof (cases res)
      case (Inl e)
      then show ?thesis using assms [of s x] Pair by simp
    next
      case (Inr u)
      have "propagates r tails s (Inr u, s1)" using assms [of s x] Pair Inr by simp
      then have "propagates r tails s (forEach f xs s1)"
        using Cons.IH by (rule propagates_seq)
      then show ?thesis using Pair Inr by simp
    qed
  qed
qed

lemma propagates_processPages:
  "propagates r [[], [EndGroup]] s (processPages cfg r page k s)"
proof (induction k arbitrary: page s)
  case 0
  show ?case by (simp add: propagates_def new_events_def)
next
  case (Suc k)
  show ?case
  proof (cases "pulls_list r (events s) page")
    case (Inl e)
    then show ?thesis by (simp add: propagates_def new_events_def emit_def Let_def)
  next
    case (Inr prs)
    define s1 where "s1 = emit (Call (PullsList page)) s"
    have a: "propagates r [[], [EndGroup]] s (Inr (), s1)"
      using Inr by (simp add: propagates_def new_events_def emit_def s1_def)
    have b: "propagates r [[], [EndGroup]] s1
               (forEach (\<lambda>pr. processPr cfg r (PrObject pr)) prs s1)"
      by (rule propagates_forEach) (rule propagates_tails [OF propagates_processPr], simp)
    show ?thesis
    proof (cases "forEach (\<lambda>pr. processPr cfg r (PrObject pr)) prs s1")
      case (Pair res s2)
      show ?thesis
      proof (cases res)
        case (Inl e)
        have "propagates r [[], [EndGroup]] s (Inl e :: error + unit, s2)"
          using propagates_seq [OF a b] Pair Inl by simp
        then show ?thesis using Inr Pair Inl by (simp add: s1_def)
      next
        case (Inr u)
        have "propagates r [[], [EndGroup]] s (Inr u, s2)"
          using propagates_seq [OF a b] Pair Inr by simp
        then have "propagates r [[], [EndGroup]] s (processPages cfg r (Suc page) k s2)"
          using Suc.IH by (rule propagates_seq)
        then show ?thesis using \<open>pulls_list r (events s) page = Inr prs\<close> Pair Inr
          by (simp add: s1_def)
      qed
    qed
  qed
qed

lemma propagates_dispatch:
  "dispatch ctx cfg r s = (Inl TypeError, s)
   \<or> propagates r [[], [EndGroup]] s (dispatch ctx cfg r s)"
proof -
  have a: "propagates r [[], [EndGroup]] s (processAllPrs cfg r s)"
    by (simp add: processAllPrs_def propagates_processPages)
  have b: "propagates r [[], [EndGroup]] s (unsupported ctx s)"
    by (simp add: unsupported_def propagates_emit_only)
  have c: "propagates r [[], [EndGroup]] s (processCheckRunCompletedEvent ctx cfg r ev s)" for ev
    using propagates_forEach [where r = r and tails = "[[], [EndGroup]]"
            and f = "\<lambda>n. processPr cfg r (PrNumber n)"
            and xs = "check_run_pull_requests ev" and s = s]
      propagates_tails [OF propagates_processPr, of "[[], [EndGroup]]"]
    by (simp add: processCheckRunCompletedEvent_def propagates_emit_only)
  have d: "propagates r [[], [EndGroup]] s (processDeploymentStatusCreated cfg r ev s)" for ev
    using a by (simp add: processDeploymentStatusCreated_def propagates_emit_only)
  show ?thesis
    using a b c d by (simp add: dispatch_def split: payload.splits)
qed

lemma conclusion_guard:
  "List.member [''success'', ''skipped''] (case c of Some x \<Rightarrow> x | None \<Rightarrow> [])
   \<longleftrightarrow> c \<in> {Some ''success'', Some ''skipped''}"
  by (cases c) auto

lemma groups_processPr:
  "filter isStartGroup (events (snd (processPr cfg r (PrNumber n) s)))
     = filter isStartGroup (events s) @ [StartGroup (''Processing PR #'' @ showNat n)]"
  using filter_processPr [OF quiet_isStartGroup, of cfg r "PrNumber n" s] by simp

lemma groups_forEach:
  "\<exists>k \<le> length ns.
     filter isStartGroup (events (snd (forEach (\<lambda>n. processPr cfg r (PrNumber n)) ns s)))
       = filter isStartGroup (events s)
         @ map (\<lambda>n. StartGroup (''Processing PR #'' @ showNat n)) (take k ns)
     \<and> (fst (forEach (\<lambda>n. processPr cfg r (PrNumber n)) ns s) = Inr () \<longrightarrow> k = length ns)"
proof (induction ns arbitrary: s)
  case Nil
  show ?case by simp
next
  case (Cons n ns)
  show ?case
  proof (cases "processPr cfg r (PrNumber n) s")
    case (Pair res s1)
    have g: "filter isStartGroup (events s1)
       = filter isStartGroup (events s) @ [StartGroup (''Processing PR #'' @ showNat n)]"
      using groups_processPr [of cfg r n s] Pair by simp
    show ?thesis
    proof (cases res)
      case (Inl e)
      then show ?thesis using Pair g by (intro exI [of _ 1]) simp
    next
      case (Inr u)
      obtain k where k: "k \<le> length ns"
        "filter isStartGroup (events (snd (forEach (\<lambda>n. processPr cfg r (PrNumber n)) ns s1)))
           = filter isStartGroup (events s1)
             @ map (\<lambda>n. StartGroup (''Processing PR #'' @ showNat n)) (take k ns)"
        "fst (forEach (\<lambda>n. processPr cfg r (PrNumber n)) ns s1) = Inr () \<longrightarrow> k = length ns"
        using Cons.IH [of s1] by blast
      show ?thesis using Pair Inr g k by (intro exI [of _ "Suc k"]) simp
    qed
  qed
qed

section \<open>Claims\<close>

text \<open>
  C1. The checks of a pull request are the eight admission predicates in the order same
  repository, not merged, auto-merge not activated, not a draft, required labels present,
  author allowed, mergeability not false, base branch has required status checks. A pull
  request that violates one of the first seven is skipped with the reason of the earliest
  one it violates, in the state it came in: nothing after the failing predicate has run,
  not even the lookup of the base branch. Otherwise the lookup is made; when it answers
  \<open>hasChecks\<close>, the outcome is that of the earliest violated predicate among all eight, and
  the merge step is reached only when none is violated. Different predicates have
  different reasons.
\<close>

theorem processPr_first_failing_predicate:
  "processPrChecks cfg r n pr s =
     (case find (violates cfg pr h)
             [SameRepository, NotMerged, AutoMergeNotActivated, NotDraft,
              RequiredLabelsPresent, AuthorAllowed, MergeableNotFalse] of
        None \<Rightarrow> requiredChecksThenMerge cfg r n pr s
      | Some p \<Rightarrow> skip (skipping n (reason cfg pr p)) s)
   \<and> (doesBranchHaveRequiredChecks r (base_ref pr) s = (Inr hasChecks, s1) \<longrightarrow>
        processPrChecks cfg r n pr s =
          (case find (violates cfg pr hasChecks)
                  [SameRepository, NotMerged, AutoMergeNotActivated, NotDraft,
                   RequiredLabelsPresent, AuthorAllowed, MergeableNotFalse,
                   BaseHasRequiredChecks] of
             None \<Rightarrow> mergePr cfg r n pr s1
           | Some p \<Rightarrow>
               skip (skipping n (reason cfg pr p))
                 (if p = BaseHasRequiredChecks then s1 else s)))
   \<and> inj (reason cfg pr)"
proof (intro conjI impI)
  show "processPrChecks cfg r n pr s =
     (case find (violates cfg pr h)
             [SameRepository, NotMerged, AutoMergeNotActivated, NotDraft,
              RequiredLabelsPresent, AuthorAllowed, MergeableNotFalse] of
        None \<Rightarrow> requiredChecksThenMerge cfg r n pr s
      | Some p \<Rightarrow> skip (skipping n (reason cfg pr p)) s)"
    using processPrChecks_early [of cfg r n pr s h] by (simp add: admission_order_def)
next
  assume "doesBranchHaveRequiredChecks r (base_ref pr) s = (Inr hasChecks, s1)"
  then show "processPrChecks cfg r n pr s =
          (case find (violates cfg pr hasChecks)
                  [SameRepository, NotMerged, AutoMergeNotActivated, NotDraft,
                   RequiredLabelsPresent, AuthorAllowed, MergeableNotFalse,
                   BaseHasRequiredChecks] of
             None \<Rightarrow> mergePr cfg r n pr s1
           | Some p \<Rightarrow>
               skip (skipping n (reason cfg pr p))
                 (if p = BaseHasRequiredChecks then s1 else s))"
    using processPrChecks_first_violation [of r pr s hasChecks s1 cfg n]
    by (simp add: first_violation_def admission_order_def)
next
  show "inj (reason cfg pr)"
    by (auto simp: inj_def dest: reason_inj)
qed

theorem processPr_first_failing_predicate_witness:
  "doesBranchHaveRequiredChecks (remote_with_branch main_protected)
       (base_ref pr_merged_auto_draft) initial_state
     = (Inr True,
        \<lparr> doesBranchHaveRequiredChecksCache = [''main'' \<mapsto> True],
          events = [Call (ReposGetBranch ''main'')] \<rparr>)
   \<and> violates no_requirements pr_merged_auto_draft True NotMerged
   \<and> violates no_requirements pr_merged_auto_draft True AutoMergeNotActivated
   \<and> violates no_requirements pr_merged_auto_draft True NotDraft
   \<and> processPrChecks no_requirements (remote_with_branch main_protected) 7
         pr_merged_auto_draft initial_state
     = (Inr (),
        \<lparr> doesBranchHaveRequiredChecksCache = Map.empty,
          events = [Warning ''Skipping PR #7: already merged''] \<rparr>)"
  using processPr_first_failing_predicate
    [where r = "remote_with_branch main_protected" and pr = pr_merged_auto_draft
       and s = initial_state and hasChecks = True and cfg = no_requirements and n = 7
       and h = True
       and ?s1.0 = "\<lparr> doesBranchHaveRequiredChecksCache = [''main'' \<mapsto> True],
          events = [Call (ReposGetBranch ''main'')] \<rparr>"]
  by (simp add: doesBranchHaveRequiredChecks_def remote_with_branch_def main_protected_def
      pr_merged_auto_draft_def initial_state_def no_requirements_def emit_def headRepoOf_def
      skip_def skipping_def showNat.simps)

text \<open>
  C3. On a cache miss answered by the remote with the branch \<open>b\<close>,
  \<open>doesBranchHaveRequiredChecks\<close> sends one branch lookup and returns true iff protection is
  enabled and the list of required status checks is not empty. A second call for the same
  branch, at once or after any pull requests \<open>ps\<close> have been processed in between, returns
  the same value and leaves the state as it is, so it sends no call; this holds against
  any remote \<open>r''\<close>, whatever that remote would answer now.
\<close>

theorem hasRequiredChecks_memoized:
  assumes miss: "doesBranchHaveRequiredChecksCache s branchName = None"
    and answer: "repos_getBranch r (events s) branchName = Inr b"
    and first: "doesBranchHaveRequiredChecks r branchName s = (res, s1)"
    and later: "forEach (processPr cfg r') ps s1 = (res2, s2)"
  shows "res = Inr (protection_enabled b = Some True
                    \<and> (\<exists>checks. required_status_checks_checks b = Some checks \<and> checks \<noteq> []))
       \<and> events s1 = events s @ [Call (ReposGetBranch branchName)]
       \<and> doesBranchHaveRequiredChecks r'' branchName s1 = (res, s1)
       \<and> doesBranchHaveRequiredChecks r'' branchName s2 = (res, s2)"
proof -
  define v where "v = (protection_enabled b = Some True
                    \<and> (\<exists>checks. required_status_checks_checks b = Some checks \<and> checks \<noteq> []))"
  have a: "res = Inr v" "events s1 = events s @ [Call (ReposGetBranch branchName)]"
    "doesBranchHaveRequiredChecksCache s1 branchName = Some v"
    using miss answer first
    by (auto simp: v_def doesBranchHaveRequiredChecks_def Let_def emit_def split: option.splits)
  have "doesBranchHaveRequiredChecksCache s2 branchName = Some v"
    using cache_forEach [OF a(3), of cfg r' ps] later by simp
  then show ?thesis
    using a unfolding v_def [symmetric]
    by (simp add: doesBranchHaveRequiredChecks_def)
qed

theorem hasRequiredChecks_memoized_witness:
  "doesBranchHaveRequiredChecksCache initial_state ''main'' = None
   \<and> repos_getBranch (remote_with_branch main_protected) (events initial_state) ''main''
       = Inr main_protected
   \<and> doesBranchHaveRequiredChecks (remote_with_branch main_protected) ''main'' initial_state
       = (Inr True,
          \<lparr> doesBranchHaveRequiredChecksCache = [''main'' \<mapsto> True],
            events = [Call (ReposGetBranch ''main'')] \<rparr>)
   \<and> forEach (processPr no_requirements (remote_with_branch main_unprotected))
        [PrObject pr_merged_auto_draft]
        \<lparr> doesBranchHaveRequiredChecksCache = [''main'' \<mapsto> True],
          events = [Call (ReposGetBranch ''main'')] \<rparr>
       = (Inr (),
          \<lparr> doesBranchHaveRequiredChecksCache = [''main'' \<mapsto> True],
            events = [Call (ReposGetBranch ''main''), StartGroup ''Processing PR #7'',
              Warning ''Skipping PR #7: already merged'', EndGroup] \<rparr>)
   \<and> doesBranchHaveRequiredChecks (remote_with_branch main_unprotected) ''main''
         \<lparr> doesBranchHaveRequiredChecksCache = [''main'' \<mapsto> True],
            events = [Call (ReposGetBranch ''main''), StartGroup ''Processing PR #7'',
              Warning ''Skipping PR #7: already merged'', EndGroup] \<rparr>
       = (Inr True,
          \<lparr> doesBranchHaveRequiredChecksCache = [''main'' \<mapsto> True],
            events = [Call (ReposGetBranch ''main''), StartGroup ''Processing PR #7'',
              Warning ''Skipping PR #7: already merged'', EndGroup] \<rparr>)
   \<and> fst (doesBranchHaveRequiredChecks (remote_with_branch main_unprotected) ''main''
            initial_state) = Inr False"
  using hasRequiredChecks_memoized
    [where s = initial_state and branchName = "''main''"
       and r = "remote_with_branch main_protected" and b = main_protected
       and res = "Inr True"
       and ?s1.0 = "\<lparr> doesBranchHaveRequiredChecksCache = [''main'' \<mapsto> True],
            events = [Call (ReposGetBranch ''main'')] \<rparr>"
       and cfg = no_requirements and r' = "remote_with_branch main_unprotected"
       and ps = "[PrObject pr_merged_auto_draft]" and ?res2.0 = "Inr ()"
       and ?s2.0 = "\<lparr> doesBranchHaveRequiredChecksCache = [''main'' \<mapsto> True],
            events = [Call (ReposGetBranch ''main''), StartGroup ''Processing PR #7'',
              Warning ''Skipping PR #7: already merged'', EndGroup] \<rparr>"
       and r'' = "remote_with_branch main_unprotected"]
  by (simp add: initial_state_def remote_with_branch_def main_protected_def
      main_unprotected_def doesBranchHaveRequiredChecks_def emit_def no_requirements_def
      pr_merged_auto_draft_def processPr_def processPrGroup_def processPrChecks_def
      skip_def skipping_def showNat.simps Let_def)

text \<open>
  C5. With the required labels read from the configuration input, a pull request is
  skipped for its labels exactly when it passes the four earlier checks, the list of
  required labels is not empty, and some required label has no case-insensitive match
  among the names of its labels. So an empty list never denies. When every required label
  has a match, the pull request is processed as it would be with no label required.
\<close>

theorem required_labels_case_insensitive:
  assumes "requiredLabels cfg = parseList raw"
  shows "(processPrChecks cfg r n pr s
            = skip (skipping n (''doesn't have all required labels: ''
                                 @ join '', '' (requiredLabels cfg))) s
          \<longleftrightarrow> base_repo_html_url pr = headRepoOf pr
              \<and> \<not> (case merged_at pr of Some t \<Rightarrow> t \<noteq> [] | None \<Rightarrow> False)
              \<and> auto_merge pr = None
              \<and> draft pr \<noteq> Some True
              \<and> requiredLabels cfg \<noteq> []
              \<and> \<not> list_all (\<lambda>label. list_ex (\<lambda>name. toLowerCase name = toLowerCase label)
                                     (labels pr)) (requiredLabels cfg))
       \<and> (list_all (\<lambda>label. list_ex (\<lambda>name. toLowerCase name = toLowerCase label)
                       (labels pr)) (requiredLabels cfg)
            \<longrightarrow> processPrChecks cfg r n pr s
                  = processPrChecks (cfg\<lparr> requiredLabels := [] \<rparr>) r n pr s)"
proof -
  have m: "list_all (\<lambda>label. list_ex (\<lambda>it. toLowerCase it = label) (labels pr)) (requiredLabels cfg)
     = list_all (\<lambda>label. list_ex (\<lambda>name. toLowerCase name = toLowerCase label) (labels pr))
         (requiredLabels cfg)"
    unfolding assms by (rule labels_match_parseList)
  have a: "processPrChecks cfg r n pr s
            = skip (skipping n (reason cfg pr RequiredLabelsPresent)) s
     \<longleftrightarrow> find (violates cfg pr True) (butlast admission_order) = Some RequiredLabelsPresent"
    by (rule denied_iff) simp
  have b: "list_all (\<lambda>label. list_ex (\<lambda>it. toLowerCase it = label) (labels pr)) (requiredLabels cfg)
    \<Longrightarrow> processPrChecks cfg r n pr s = processPrChecks (cfg\<lparr> requiredLabels := [] \<rparr>) r n pr s"
    by (simp add: processPrChecks_def requiredChecksThenMerge_requiredLabels Let_def)
  show ?thesis
    using a b unfolding find_labels m [symmetric] by simp
qed

theorem required_labels_case_insensitive_witness:
  "requiredLabels labels_ready_approved = parseList ''ready, Approved''
   \<and> requiredLabels labels_ready_approved = [''ready'', ''approved'']
   \<and> processPrChecks labels_ready_approved (remote_with_branch main_protected) 8 pr_ready
         initial_state
       = (Inr (),
          \<lparr> doesBranchHaveRequiredChecksCache = Map.empty,
            events = [Warning
              ''Skipping PR #8: doesn't have all required labels: ready, approved''] \<rparr>)
   \<and> fst (processPrChecks labels_ready_approved (remote_with_branch main_protected) 8
         (pr_ready\<lparr> labels := [''APPROVED'', ''Ready''] \<rparr>) initial_state) = Inr ()
   \<and> events (snd (processPrChecks labels_ready_approved (remote_with_branch main_protected) 8
         (pr_ready\<lparr> labels := [''APPROVED'', ''Ready''] \<rparr>) initial_state))
       = [Call (ReposGetBranch ''main''), Warning ''Merging PR #8'',
          Call (PullsMerge 8 ''abc123'' None)]"
  using required_labels_case_insensitive
    [where cfg = labels_ready_approved and raw = "''ready, Approved''"
       and r = "remote_with_branch main_protected" and n = 8 and pr = pr_ready
       and s = initial_state]
  by (simp add: labels_ready_approved_def readConfig_def parse_ready_approved parse_empty
      pr_ready_def headRepoOf_def lower_Ready lower_APPROVED lower_empty skip_def skipping_def
      showNat.simps emit_def initial_state_def processPrChecks_def
      requiredChecksThenMerge_def mergePr_def doesBranchHaveRequiredChecks_def
      remote_with_branch_def main_protected_def Let_def)

text \<open>
  C6. A pull request is skipped as not mergeable exactly when it passes the six earlier
  checks and its mergeability flag is present and false. When it passes them and the flag
  is true, null or absent (as in an item of the list), it goes on to the last check, the
  required status checks of the base branch.
\<close>

theorem mergeable_only_false_rejects:
  "(processPrChecks cfg r n pr s = skip (skipping n ''not mergeable'') s
      \<longleftrightarrow> \<not> violates cfg pr h SameRepository \<and> \<not> violates cfg pr h NotMerged
          \<and> \<not> violates cfg pr h AutoMergeNotActivated \<and> \<not> violates cfg pr h NotDraft
          \<and> \<not> violates cfg pr h RequiredLabelsPresent \<and> \<not> violates cfg pr h AuthorAllowed
          \<and> mergeable pr = Mergeable False)
   \<and> (\<not> violates cfg pr h SameRepository \<and> \<not> violates cfg pr h NotMerged
          \<and> \<not> violates cfg pr h AutoMergeNotActivated \<and> \<not> violates cfg pr h NotDraft
          \<and> \<not> violates cfg pr h RequiredLabelsPresent \<and> \<not> violates cfg pr h AuthorAllowed
          \<and> mergeable pr \<in> {Mergeable True, MergeableNull, MergeableAbsent}
        \<longrightarrow> processPrChecks cfg r n pr s = requiredChecksThenMerge cfg r n pr s)"
proof -
  have a: "processPrChecks cfg r n pr s = skip (skipping n (reason cfg pr MergeableNotFalse)) s
     \<longleftrightarrow> find (violates cfg pr h) (butlast admission_order) = Some MergeableNotFalse"
    by (rule denied_iff) simp
  have b: "find (violates cfg pr h) (butlast admission_order) = None
     \<Longrightarrow> processPrChecks cfg r n pr s = requiredChecksThenMerge cfg r n pr s"
    by (simp add: processPrChecks_early [of cfg r n pr s h])
  have c: "mergeable pr \<in> {Mergeable True, MergeableNull, MergeableAbsent}
     \<Longrightarrow> \<not> violates cfg pr h MergeableNotFalse"
    by auto
  show ?thesis
    using a b c unfolding find_mergeable find_none by auto
qed

theorem mergeable_only_false_rejects_witness:
  "processPrChecks no_requirements (remote_with_branch main_protected) 9 pr_fetched initial_state
     = (Inr (), \<lparr> doesBranchHaveRequiredChecksCache = Map.empty,
                  events = [Warning ''Skipping PR #9: not mergeable''] \<rparr>)
   \<and> events (snd (processPrChecks no_requirements (remote_with_branch main_protected) 9
         (pr_fetched\<lparr> mergeable := MergeableNull \<rparr>) initial_state))
     = [Call (ReposGetBranch ''main''), Warning ''Merging PR #9'',
        Call (PullsMerge 9 ''def456'' None)]
   \<and> events (snd (processPrChecks no_requirements (remote_with_branch main_protected) 9
         (pr_fetched\<lparr> mergeable := MergeableAbsent \<rparr>) initial_state))
     = [Call (ReposGetBranch ''main''), Warning ''Merging PR #9'',
        Call (PullsMerge 9 ''def456'' None)]"
  using mergeable_only_false_rejects
    [where cfg = no_requirements and r = "remote_with_branch main_protected" and n = 9
       and pr = pr_fetched and s = initial_state and h = True]
    mergeable_only_false_rejects
    [where cfg = no_requirements and r = "remote_with_branch main_protected" and n = 9
       and pr = "pr_fetched\<lparr> mergeable := MergeableNull \<rparr>" and s = initial_state and h = True]
    mergeable_only_false_rejects
    [where cfg = no_requirements and r = "remote_with_branch main_protected" and n = 9
       and pr = "pr_fetched\<lparr> mergeable := MergeableAbsent \<rparr>" and s = initial_state and h = True]
  by (simp add: no_requirements_def pr_fetched_def headRepoOf_def skip_def skipping_def
      showNat.simps emit_def initial_state_def
      requiredChecksThenMerge_def mergePr_def doesBranchHaveRequiredChecks_def
      remote_with_branch_def main_protected_def Let_def)

text \<open>
  C9. A pull request whose head repository is absent is compared with the empty string in
  place of the head repository's URL; the URL of the base repository is not empty, so the
  pull request is skipped for the different repositories, whatever its other fields, the
  configuration and the state are.
\<close>

theorem absent_head_repo_denied:
  assumes "head_repo_html_url pr = None" and "base_repo_html_url pr \<noteq> []"
  shows "processPrChecks cfg r n pr s
           = skip (skipping n (''base's repo '' @ base_repo_html_url pr
                                @ '' is different from head's repo '' @ [])) s
       \<and> processPr cfg r (PrObject pr) s
           = (Inr (), s\<lparr> events := events s @
                [StartGroup (''Processing PR #'' @ showNat (number pr)),
                 Warning (''Skipping PR #'' @ showNat (number pr) @ '': base's repo ''
                          @ base_repo_html_url pr @ '' is different from head's repo ''),
                 EndGroup] \<rparr>)"
  using assms
  by (simp add: processPr_def processPrGroup_def processPrChecks_def skip_def skipping_def
      emit_def Let_def)

theorem absent_head_repo_denied_witness:
  "head_repo_html_url (pr_ready\<lparr> head_repo_html_url := None \<rparr>) = None
   \<and> base_repo_html_url (pr_ready\<lparr> head_repo_html_url := None \<rparr>) \<noteq> []
   \<and> processPr no_requirements (remote_with_branch main_protected)
        (PrObject (pr_ready\<lparr> head_repo_html_url := None \<rparr>)) initial_state
      = (Inr (), \<lparr> doesBranchHaveRequiredChecksCache = Map.empty,
           events = [StartGroup ''Processing PR #8'',
             Warning ''Skipping PR #8: base's repo https://github.com/o/r is different from head's repo '',
             EndGroup] \<rparr>)"
  using absent_head_repo_denied
    [where pr = "pr_ready\<lparr> head_repo_html_url := None \<rparr>" and cfg = no_requirements
       and r = "remote_with_branch main_protected" and n = 8 and s = initial_state]
  by (simp add: pr_ready_def initial_state_def showNat.simps)

text \<open>
  C10. With a non-empty list of authors read from the configuration input, the empty
  login that stands for an absent author is not in the list. A pull request without an
  author is therefore always skipped, and for its author whenever it passes the five
  earlier checks.
\<close>

theorem absent_author_denied:
  assumes "authors cfg = parseList raw" and "authors cfg \<noteq> []" and "user_login pr = None"
  shows "\<not> List.member (authors cfg) []
       \<and> (\<exists>p. processPrChecks cfg r n pr s = skip (skipping n (reason cfg pr p)) s)
       \<and> (\<not> violates cfg pr h SameRepository \<and> \<not> violates cfg pr h NotMerged
          \<and> \<not> violates cfg pr h AutoMergeNotActivated \<and> \<not> violates cfg pr h NotDraft
          \<and> \<not> violates cfg pr h RequiredLabelsPresent
          \<longrightarrow> processPrChecks cfg r n pr s
                = skip (skipping n (''the author '' @ [] @ '' if not one of: ''
                                     @ join '', '' (authors cfg))) s)"
proof -
  have m: "\<not> List.member (authors cfg) []"
    using parseList_elem [of "[]" raw] assms(1) by auto
  then have v: "violates cfg pr h AuthorAllowed"
    using assms by (simp add: authorOf_def)
  have a: "processPrChecks cfg r n pr s = skip (skipping n (reason cfg pr AuthorAllowed)) s
     \<longleftrightarrow> find (violates cfg pr h) (butlast admission_order) = Some AuthorAllowed"
    by (rule denied_iff) simp
  have r: "reason cfg pr AuthorAllowed
     = ''the author '' @ [] @ '' if not one of: '' @ join '', '' (authors cfg)"
    using assms(3) by (simp add: authorOf_def)
  obtain p where "find (violates cfg pr h) (butlast admission_order) = Some p"
    using find_Some_if_violates [OF v] by blast
  then have e: "processPrChecks cfg r n pr s = skip (skipping n (reason cfg pr p)) s"
    by (simp add: processPrChecks_early [of cfg r n pr s h] del: reason.simps)
  show ?thesis
    using m e a v unfolding find_author r by blast
qed

theorem absent_author_denied_witness:
  "authors authors_octocat = parseList ''OctoCat; dependabot[bot]''
   \<and> authors authors_octocat = [''octocat'', ''dependabot[bot]'']
   \<and> user_login (pr_ready\<lparr> user_login := None \<rparr>) = None
   \<and> processPrChecks authors_octocat (remote_with_branch main_protected) 8
        (pr_ready\<lparr> user_login := None \<rparr>) initial_state
      = (Inr (), \<lparr> doesBranchHaveRequiredChecksCache = Map.empty,
           events = [Warning
             ''Skipping PR #8: the author  if not one of: octocat, dependabot[bot]''] \<rparr>)"
  using absent_author_denied
    [where cfg = authors_octocat and raw = "''OctoCat; dependabot[bot]''"
       and pr = "pr_ready\<lparr> user_login := None \<rparr>" and h = True
       and r = "remote_with_branch main_protected" and n = 8 and s = initial_state]
  by (simp add: authors_octocat_def readConfig_def parse_authors parse_empty pr_ready_def
      headRepoOf_def skip_def skipping_def showNat.simps emit_def initial_state_def)

text \<open>
  C7. When a pull request violates no predicate and the lookup says the base branch has
  required checks, the merge step runs: it emits the warning \<^verbatim>\<open>Merging PR #N\<close> and then,
  unless this is a dry run, sends the merge call with the head sha of the pull request and
  with the preferred merge method when that is not empty, with no method otherwise. In a
  dry run no merge call is sent during the whole run, whatever the event.
\<close>

theorem merge_call_unless_dry_run:
  assumes "find (violates cfg pr True)
             [SameRepository, NotMerged, AutoMergeNotActivated, NotDraft,
              RequiredLabelsPresent, AuthorAllowed, MergeableNotFalse, BaseHasRequiredChecks]
           = None"
    and "doesBranchHaveRequiredChecks r (base_ref pr) s = (Inr True, s1)"
  shows "processPrChecks cfg r n pr s = mergePr cfg r n pr s1
       \<and> events (snd (mergePr cfg r n pr s1))
           = events s1 @ Warning (''Merging PR #'' @ showNat n)
               # (if dryRun cfg then []
                  else [Call (PullsMerge n (head_sha pr)
                          (if preferredMergeOption cfg = [] then None
                           else Some (preferredMergeOption cfg)))])
       \<and> (dryRun cfg \<longrightarrow>
            filter isMergeCall (events (snd (run ctx cfg r' s0))) = filter isMergeCall (events s0))"
proof -
  have a: "processPrChecks cfg r n pr s = mergePr cfg r n pr s1"
    using processPrChecks_first_violation [OF assms(2), of cfg n] assms(1)
    by (simp add: first_violation_def admission_order_def)
  have b: "events (snd (mergePr cfg r n pr s1))
           = events s1 @ Warning (''Merging PR #'' @ showNat n)
               # (if dryRun cfg then []
                  else [Call (PullsMerge n (head_sha pr)
                          (if preferredMergeOption cfg = [] then None
                           else Some (preferredMergeOption cfg)))])"
    by (simp add: mergePr_def emit_def Let_def split: sum.splits)
  show ?thesis using a b no_merge_run [of cfg ctx r' s0] by blast
qed

theorem merge_call_unless_dry_run_witness:
  "find (violates (authors_octocat\<lparr> dryRun := False \<rparr>) pr_ready True)
      [SameRepository, NotMerged, AutoMergeNotActivated, NotDraft,
       RequiredLabelsPresent, AuthorAllowed, MergeableNotFalse, BaseHasRequiredChecks] = None
   \<and> doesBranchHaveRequiredChecks (remote_with_branch main_protected) (base_ref pr_ready)
        initial_state
      = (Inr True, \<lparr> doesBranchHaveRequiredChecksCache = [''main'' \<mapsto> True],
                     events = [Call (ReposGetBranch ''main'')] \<rparr>)
   \<and> events (snd (processPrChecks (authors_octocat\<lparr> dryRun := False \<rparr>)
        (remote_with_branch main_protected) 8 pr_ready initial_state))
      = [Call (ReposGetBranch ''main''), Warning ''Merging PR #8'',
         Call (PullsMerge 8 ''abc123'' (Some ''squash''))]
   \<and> dryRun authors_octocat
   \<and> events (snd (run push_event authors_octocat (remote_listing [pr_ready]) initial_state))
      = [Call (PullsList 1), StartGroup ''Processing PR #8'', Call (ReposGetBranch ''main''),
         Warning ''Merging PR #8'', EndGroup]
   \<and> filter isMergeCall
        (events (snd (run push_event authors_octocat (remote_listing [pr_ready]) initial_state)))
      = []"
  using merge_call_unless_dry_run
    [where cfg = "authors_octocat\<lparr> dryRun := False \<rparr>" and pr = pr_ready
       and r = "remote_with_branch main_protected" and s = initial_state and n = 8
       and ?s1.0 = "\<lparr> doesBranchHaveRequiredChecksCache = [''main'' \<mapsto> True],
                     events = [Call (ReposGetBranch ''main'')] \<rparr>"
       and ctx = push_event and r' = "remote_listing [pr_ready]" and ?s0.0 = initial_state]
    merge_call_unless_dry_run
    [where cfg = authors_octocat and pr = pr_ready
       and r = "remote_with_branch main_protected" and s = initial_state and n = 8
       and ?s1.0 = "\<lparr> doesBranchHaveRequiredChecksCache = [''main'' \<mapsto> True],
                     events = [Call (ReposGetBranch ''main'')] \<rparr>"
       and ctx = push_event and r' = "remote_listing [pr_ready]" and ?s0.0 = initial_state]
  by (simp add: authors_octocat_eq pr_ready_def headRepoOf_def authorOf_def lower_octocat
      initial_state_def remote_with_branch_def remote_listing_def main_protected_def
      push_event_def doesBranchHaveRequiredChecks_def emit_def mergePr_def Let_def
      showNat.simps run_def dispatch_def processAllPrs_def processPr_def processPrGroup_def
      processPrChecks_def requiredChecksThenMerge_def)

text \<open>
  C2, as stated, fails: a completed check-run event whose conclusion is \<^verbatim>\<open>failure\<close> and
  that lists pull request 7 ends with one debug message and nothing else, where the single
  pull request pipeline for the numbers it lists would have fetched and merged number 7.
\<close>

theorem completed_check_run_failure_not_processed:
  "eventName (check_run_event failure_payload) = ''check_run''
   \<and> payload (check_run_event failure_payload) = CheckRunPayload failure_payload
   \<and> action failure_payload = ''completed''
   \<and> check_run_pull_requests failure_payload = [7]
   \<and> run (check_run_event failure_payload) no_requirements remote_fetching initial_state
     = (Inr (), \<lparr> doesBranchHaveRequiredChecksCache = Map.empty,
          events = [Debug (''Skipping check run by conclusion: '' @ quote ''failure'')] \<rparr>)
   \<and> events (snd (perform no_requirements remote_fetching
         (SinglePipeline (check_run_pull_requests failure_payload)) initial_state))
     = [StartGroup ''Processing PR #7'', Call (PullsGet 7),
            Call (ReposGetBranch ''main''), Warning ''Merging PR #7'',
            Call (PullsMerge 7 ''abc123'' None), EndGroup]
   \<and> run (check_run_event failure_payload) no_requirements remote_fetching initial_state
     \<noteq> perform no_requirements remote_fetching
         (SinglePipeline (check_run_pull_requests failure_payload)) initial_state"
proof -
  have a: "run (check_run_event failure_payload) no_requirements remote_fetching initial_state
     = (Inr (), \<lparr> doesBranchHaveRequiredChecksCache = Map.empty,
          events = [Debug (''Skipping check run by conclusion: '' @ quote ''failure'')] \<rparr>)"
    by (simp add: run_def dispatch_def processCheckRunCompletedEvent_def check_run_event_def
        failure_payload_def initial_state_def emit_def)
  have b: "events (snd (perform no_requirements remote_fetching
         (SinglePipeline (check_run_pull_requests failure_payload)) initial_state))
     = [StartGroup ''Processing PR #7'', Call (PullsGet 7),
            Call (ReposGetBranch ''main''), Warning ''Merging PR #7'',
            Call (PullsMerge 7 ''abc123'' None), EndGroup]"
    by (simp add: failure_payload_def no_requirements_def remote_fetching_def initial_state_def
        emit_def processPr_def processPrGroup_def processPrChecks_def
        requiredChecksThenMerge_def mergePr_def doesBranchHaveRequiredChecks_def
        main_protected_def pr_ready_def showNat.simps Let_def)
  have c: "run (check_run_event failure_payload) no_requirements remote_fetching initial_state
     \<noteq> perform no_requirements remote_fetching
         (SinglePipeline (check_run_pull_requests failure_payload)) initial_state"
  proof
    assume "run (check_run_event failure_payload) no_requirements remote_fetching initial_state
      = perform no_requirements remote_fetching
         (SinglePipeline (check_run_pull_requests failure_payload)) initial_state"
    then have "events (snd (run (check_run_event failure_payload) no_requirements
                  remote_fetching initial_state))
      = events (snd (perform no_requirements remote_fetching
         (SinglePipeline (check_run_pull_requests failure_payload)) initial_state))"
      by simp
    then show False unfolding a b by simp
  qed
  show ?thesis
    using a b c by (simp add: check_run_event_def failure_payload_def)
qed

text \<open>
  C2, amended. For every event the router does what the dispatch table says:
  \<^verbatim>\<open>branch_protection_rule\<close>, \<^verbatim>\<open>push\<close>, \<^verbatim>\<open>schedule\<close>,
  \<^verbatim>\<open>workflow_dispatch\<close>, and \<^verbatim>\<open>deployment_status\<close> with state \<^verbatim>\<open>success\<close> run the bulk
  driver; a \<^verbatim>\<open>check_run\<close> event that is not the run's own check, has action \<^verbatim>\<open>completed\<close>
  and conclusion \<^verbatim>\<open>success\<close> or \<^verbatim>\<open>skipped\<close> runs the single pull request pipeline for the
  numbers it lists, in order; every other event, the other check-run events among them,
  emits one diagnostic and does nothing else, unless it is malformed. \<^verbatim>\<open>run\<close> adds the
  report of a failure to that.
\<close>

theorem event_router:
  "dispatch ctx cfg r s = perform cfg r (route_of ctx) s
   \<and> run ctx cfg r s =
       (case perform cfg r (route_of ctx) s of
          (Inl e, s1) \<Rightarrow> (Inl e, emit (SetFailed e) s1)
        | (Inr u, s1) \<Rightarrow> (Inr u, s1))"
proof -
  have c: "processCheckRunCompletedEvent ctx cfg r ev s
      = perform cfg r
          (if check_run_id ev = runId ctx then
               NoOp (Debug (''Skipping current check run: '' @ check_run_html_url ev))
             else if action ev \<noteq> ''completed'' then
               NoOp (Debug (''Skipping check run by action: '' @ quote (action ev)))
             else if check_run_conclusion ev \<notin> {Some ''success'', Some ''skipped''} then
               NoOp (Debug (''Skipping check run by conclusion: ''
                 @ quote (case check_run_conclusion ev of Some c \<Rightarrow> c | None \<Rightarrow> ''null'')))
             else SinglePipeline (check_run_pull_requests ev)) s" for ev
    using conclusion_guard [of "check_run_conclusion ev"]
    by (simp add: processCheckRunCompletedEvent_def del: List.member_iff)
  have d: "processDeploymentStatusCreated cfg r ev s
      = perform cfg r
          (if deployment_status_state ev = ''success'' then BulkDriver
             else NoOp (Debug (''Skipping deployment status by state: ''
                    @ quote (deployment_status_state ev)))) s" for ev
    by (simp add: processDeploymentStatusCreated_def)
  have "dispatch ctx cfg r s = perform cfg r (route_of ctx) s"
  proof (cases "payload ctx")
    case (CheckRunPayload ev)
    then show ?thesis using c [of ev]
      by (simp add: dispatch_def route_of_def unsupported_def)
  next
    case (DeploymentStatusPayload ev)
    then show ?thesis using d [of ev]
      by (simp add: dispatch_def route_of_def unsupported_def)
  next
    case OtherPayload
    then show ?thesis
      by (simp add: dispatch_def route_of_def unsupported_def)
  qed
  then show ?thesis by (simp add: run_def)
qed

theorem event_router_witness:
  "eventName (check_run_event success_payload) = ''check_run''
   \<and> payload (check_run_event success_payload) = CheckRunPayload success_payload
   \<and> eventName (check_run_event success_payload) \<noteq> ''deployment_status''
   \<and> route_of (check_run_event success_payload) = SinglePipeline [7, 12]
   \<and> route_of (check_run_event failure_payload)
       = NoOp (Debug (''Skipping check run by conclusion: '' @ quote ''failure''))
   \<and> route_of push_event = BulkDriver
   \<and> run (check_run_event success_payload) no_requirements remote_fetching initial_state
     = (Inr (), \<lparr> doesBranchHaveRequiredChecksCache = [''main'' \<mapsto> True],
          events = [StartGroup ''Processing PR #7'', Call (PullsGet 7),
            Call (ReposGetBranch ''main''), Warning ''Merging PR #7'',
            Call (PullsMerge 7 ''abc123'' None), EndGroup,
            StartGroup ''Processing PR #12'', Call (PullsGet 12),
            Warning ''Merging PR #12'', Call (PullsMerge 12 ''abc123'' None), EndGroup] \<rparr>)"
  using event_router
    [where ctx = "check_run_event success_payload" and cfg = no_requirements
       and r = remote_fetching and s = initial_state]
  by (simp add: route_of_def push_event_def check_run_event_def failure_payload_def
      success_payload_def no_requirements_def remote_fetching_def initial_state_def emit_def
      quote_def processPr_def processPrGroup_def processPrChecks_def
      requiredChecksThenMerge_def mergePr_def doesBranchHaveRequiredChecks_def
      main_protected_def pr_ready_def showNat.simps Let_def)

text \<open>
  C4. A check-run event is processed only if the check run is not the run's own, the action
  is \<^verbatim>\<open>completed\<close> and the conclusion is \<^verbatim>\<open>success\<close> or \<^verbatim>\<open>skipped\<close>. Then the numbers it
  lists go through \<^verbatim>\<open>processPr\<close> one after the other: the groups opened are those of a
  prefix of the list, of the whole list when no step failed. Otherwise, as for the run's
  own check and for the conclusion \<^verbatim>\<open>failure\<close>, the handler emits one debug message and
  does nothing else: no call, no group, the cache as it was.
\<close>

theorem check_run_guards:
  "(check_run_id ev \<noteq> runId ctx \<and> action ev = ''completed''
      \<and> check_run_conclusion ev \<in> {Some ''success'', Some ''skipped''}
    \<longrightarrow> processCheckRunCompletedEvent ctx cfg r ev s
          = forEach (\<lambda>n. processPr cfg r (PrNumber n)) (check_run_pull_requests ev) s
        \<and> (\<exists>k \<le> length (check_run_pull_requests ev).
             filter isStartGroup (events (snd (processCheckRunCompletedEvent ctx cfg r ev s)))
               = filter isStartGroup (events s)
                 @ map (\<lambda>n. StartGroup (''Processing PR #'' @ showNat n))
                     (take k (check_run_pull_requests ev))
             \<and> (fst (processCheckRunCompletedEvent ctx cfg r ev s) = Inr ()
                  \<longrightarrow> k = length (check_run_pull_requests ev))))
   \<and> (\<not> (check_run_id ev \<noteq> runId ctx \<and> action ev = ''completed''
          \<and> check_run_conclusion ev \<in> {Some ''success'', Some ''skipped''})
      \<longrightarrow> (\<exists>msg. processCheckRunCompletedEvent ctx cfg r ev s = (Inr (), emit (Debug msg) s)))"
proof -
  have a: "check_run_id ev \<noteq> runId ctx \<and> action ev = ''completed''
      \<and> check_run_conclusion ev \<in> {Some ''success'', Some ''skipped''}
    \<Longrightarrow> processCheckRunCompletedEvent ctx cfg r ev s
          = forEach (\<lambda>n. processPr cfg r (PrNumber n)) (check_run_pull_requests ev) s"
    using conclusion_guard [of "check_run_conclusion ev"]
    by (simp add: processCheckRunCompletedEvent_def del: List.member_iff)
  have b: "\<not> (check_run_id ev \<noteq> runId ctx \<and> action ev = ''completed''
          \<and> check_run_conclusion ev \<in> {Some ''success'', Some ''skipped''})
      \<Longrightarrow> \<exists>msg. processCheckRunCompletedEvent ctx cfg r ev s = (Inr (), emit (Debug msg) s)"
    using conclusion_guard [of "check_run_conclusion ev"]
    by (auto simp add: processCheckRunCompletedEvent_def simp del: List.member_iff)
  have c: "check_run_id ev \<noteq> runId ctx \<and> action ev = ''completed''
      \<and> check_run_conclusion ev \<in> {Some ''success'', Some ''skipped''}
    \<Longrightarrow> \<exists>k \<le> length (check_run_pull_requests ev).
             filter isStartGroup (events (snd (processCheckRunCompletedEvent ctx cfg r ev s)))
               = filter isStartGroup (events s)
                 @ map (\<lambda>n. StartGroup (''Processing PR #'' @ showNat n))
                     (take k (check_run_pull_requests ev))
             \<and> (fst (processCheckRunCompletedEvent ctx cfg r ev s) = Inr ()
                  \<longrightarrow> k = length (check_run_pull_requests ev))"
    using groups_forEach [of "check_run_pull_requests ev" cfg r s] a by simp
  show ?thesis
  proof (intro conjI impI)
    assume g: "check_run_id ev \<noteq> runId ctx \<and> action ev = ''completed''
      \<and> check_run_conclusion ev \<in> {Some ''success'', Some ''skipped''}"
    show "processCheckRunCompletedEvent ctx cfg r ev s
          = forEach (\<lambda>n. processPr cfg r (PrNumber n)) (check_run_pull_requests ev) s"
      using g by (rule a)
    show "\<exists>k \<le> length (check_run_pull_requests ev).
             filter isStartGroup (events (snd (processCheckRunCompletedEvent ctx cfg r ev s)))
               = filter isStartGroup (events s)
                 @ map (\<lambda>n. StartGroup (''Processing PR #'' @ showNat n))
                     (take k (check_run_pull_requests ev))
             \<and> (fst (processCheckRunCompletedEvent ctx cfg r ev s) = Inr ()
                  \<longrightarrow> k = length (check_run_pull_requests ev))"
      using g by (rule c)
  next
    assume g: "\<not> (check_run_id ev \<noteq> runId ctx \<and> action ev = ''completed''
          \<and> check_run_conclusion ev \<in> {Some ''success'', Some ''skipped''})"
    show "\<exists>msg. processCheckRunCompletedEvent ctx cfg r ev s = (Inr (), emit (Debug msg) s)"
      using g by (rule b)
  qed
qed

theorem check_run_guards_witness:
  "processCheckRunCompletedEvent (check_run_event failure_payload) no_requirements
       remote_fetching failure_payload initial_state
     = (Inr (), \<lparr> doesBranchHaveRequiredChecksCache = Map.empty,
          events = [Debug (''Skipping check run by conclusion: '' @ quote ''failure'')] \<rparr>)
   \<and> processCheckRunCompletedEvent
        ((check_run_event success_payload)\<lparr> runId := 55 \<rparr>) no_requirements
        remote_fetching success_payload initial_state
     = (Inr (), \<lparr> doesBranchHaveRequiredChecksCache = Map.empty,
          events = [Debug ''Skipping current check run: https://github.com/o/r/runs/55''] \<rparr>)
   \<and> processCheckRunCompletedEvent (check_run_event success_payload) no_requirements
       remote_fetching success_payload initial_state
     = (Inr (), \<lparr> doesBranchHaveRequiredChecksCache = [''main'' \<mapsto> True],
          events = [StartGroup ''Processing PR #7'', Call (PullsGet 7),
            Call (ReposGetBranch ''main''), Warning ''Merging PR #7'',
            Call (PullsMerge 7 ''abc123'' None), EndGroup,
            StartGroup ''Processing PR #12'', Call (PullsGet 12),
            Warning ''Merging PR #12'', Call (PullsMerge 12 ''abc123'' None), EndGroup] \<rparr>)"
  using check_run_guards
    [where ev = failure_payload and ctx = "check_run_event failure_payload"
       and cfg = no_requirements and r = remote_fetching and s = initial_state]
    check_run_guards
    [where ev = success_payload and ctx = "(check_run_event success_payload)\<lparr> runId := 55 \<rparr>"
       and cfg = no_requirements and r = remote_fetching and s = initial_state]
    check_run_guards
    [where ev = success_payload and ctx = "check_run_event success_payload"
       and cfg = no_requirements and r = remote_fetching and s = initial_state]
  by (simp add: processCheckRunCompletedEvent_def check_run_event_def failure_payload_def
      success_payload_def no_requirements_def remote_fetching_def initial_state_def emit_def
      quote_def processPr_def processPrGroup_def processPrChecks_def
      requiredChecksThenMerge_def mergePr_def doesBranchHaveRequiredChecks_def
      main_protected_def pr_ready_def showNat.simps Let_def)

text \<open>
  C8, as stated, fails for the listing: when the first page of the list of open pull
  requests is answered with the status 409, the call has failed, yet the run of a push
  event ends with success after that one call, with no failure reported.
\<close>

theorem list_conflict_does_not_fail_run:
  "pulls_list remote_list_conflict (events initial_state) 1 = Inl (RemoteError 409 ''Conflict'')
   \<and> run push_event no_requirements remote_list_conflict initial_state
     = (Inr (), \<lparr> doesBranchHaveRequiredChecksCache = Map.empty,
                  events = [Call (PullsList 1)] \<rparr>)"
  by (simp add: run_def dispatch_def processAllPrs_def push_event_def remote_list_conflict_def
      initial_state_def emit_def Let_def)

text \<open>
  C8, amended. Whatever the event: the run only adds events, and if a call to the remote
  throws (a failed fetch, branch lookup or merge, or a failed page of the list whose status
  is not 409), the run ends with the first such failure as its result; after that call
  nothing happens but the closing of the open group, if there is one, and the report of
  the failure with \<^verbatim>\<open>setFailed\<close>: no further call, no further pull request, no second
  attempt. If no call throws the run succeeds, unless the payload has not the shape of its
  event. The same holds for \<^verbatim>\<open>processPr\<close> alone, which throws the first failure after
  closing its group. A page of the list answered with the status 409 is not thrown: the
  listing ends there with success, as after an empty last page.
\<close>

theorem remote_failure_ends_run:
  assumes "run ctx cfg r s = (res, s')"
  shows "events s' = events s @ new_events s s'
     \<and> (case first_failure r (events s) (new_events s s') of
          Some (e, rest) \<Rightarrow>
            res = Inl e \<and> (rest = [SetFailed e] \<or> rest = [EndGroup, SetFailed e])
        | None \<Rightarrow>
            res = Inr () \<or> (res = Inl TypeError \<and> new_events s s' = [SetFailed TypeError]))
     \<and> (case first_failure r (events s0) (new_events s0 (snd (processPr cfg r p s0))) of
          Some (e, rest) \<Rightarrow> fst (processPr cfg r p s0) = Inl e \<and> rest = [EndGroup]
        | None \<Rightarrow> fst (processPr cfg r p s0) = Inr ())
     \<and> (pulls_list r (events s0) page = Inl e409 \<and> status e409 = Some 409 \<longrightarrow>
          processPages cfg r page (Suc k) s0 = (Inr (), emit (Call (PullsList page)) s0))"
proof -
  have lst: "pulls_list r (events s0) page = Inl e409 \<and> status e409 = Some 409 \<longrightarrow>
          processPages cfg r page (Suc k) s0 = (Inr (), emit (Call (PullsList page)) s0)"
    by (simp add: Let_def)
  have pr: "case first_failure r (events s0) (new_events s0 (snd (processPr cfg r p s0))) of
          Some (e, rest) \<Rightarrow> fst (processPr cfg r p s0) = Inl e \<and> rest = [EndGroup]
        | None \<Rightarrow> fst (processPr cfg r p s0) = Inr ()"
    using propagates_processPr [of r s0 cfg p]
    by (auto simp: propagates_def split: option.splits)
  obtain res1 s1 where d: "dispatch ctx cfg r s = (res1, s1)"
    by (cases "dispatch ctx cfg r s")
  consider (ill) "res1 = Inl TypeError" "s1 = s"
    | (ok) "propagates r [[], [EndGroup]] s (res1, s1)"
    using propagates_dispatch [of ctx cfg r s] d by auto
  then have "events s' = events s @ new_events s s'
     \<and> (case first_failure r (events s) (new_events s s') of
          Some (e, rest) \<Rightarrow>
            res = Inl e \<and> (rest = [SetFailed e] \<or> rest = [EndGroup, SetFailed e])
        | None \<Rightarrow>
            res = Inr () \<or> (res = Inl TypeError \<and> new_events s s' = [SetFailed TypeError]))"
  proof cases
    case ill
    then show ?thesis using assms d
      by (auto simp: run_def emit_def new_events_def)
  next
    case ok
    define ev where "ev = new_events s s1"
    from ok have e: "events s1 = events s @ ev"
      and f: "case first_failure r (events s) ev of
              None \<Rightarrow> (\<exists>v. res1 = Inr v)
            | Some (e, rest) \<Rightarrow> res1 = Inl e \<and> (rest = [] \<or> rest = [EndGroup])"
      by (auto simp: propagates_def ev_def split: option.splits)
    show ?thesis
    proof (cases res1)
      case (Inl e1)
      then have s': "s' = emit (SetFailed e1) s1" and res: "res = Inl e1"
        using assms d by (auto simp: run_def)
      have n: "new_events s s' = ev @ [SetFailed e1]"
        using e s' by (simp add: new_events_def emit_def)
      have a: "events s' = events s @ new_events s s'"
        using e s' by (simp add: new_events_def emit_def)
      have b: "first_failure r (events s) (ev @ [SetFailed e1])
          = (case first_failure r (events s) ev of
               Some (e, rest) \<Rightarrow> Some (e, rest @ [SetFailed e1])
             | None \<Rightarrow> None)"
        by (simp add: first_failure_append split: option.splits)
      show ?thesis using f Inl a
        unfolding n res b
        by (auto split: option.splits)
    next
      case (Inr u)
      then have s': "s' = s1" and res: "res = Inr ()"
        using assms d by (auto simp: run_def)
      show ?thesis using f Inr e
        unfolding res s' ev_def
        by (auto split: option.splits)
    qed
  qed
  then show ?thesis using pr lst by blast
qed

theorem remote_failure_ends_run_witness:
  "run push_event no_requirements
       (remote_conflict [pr_ready, pr_fetched\<lparr> mergeable := Mergeable True \<rparr>]) initial_state
     = (Inl (RemoteError 409 ''Conflict''),
        \<lparr> doesBranchHaveRequiredChecksCache = [''main'' \<mapsto> True],
          events = [Call (PullsList 1), StartGroup ''Processing PR #8'',
            Call (ReposGetBranch ''main''), Warning ''Merging PR #8'',
            Call (PullsMerge 8 ''abc123'' None), EndGroup,
            SetFailed (RemoteError 409 ''Conflict'')] \<rparr>)
   \<and> first_failure (remote_conflict [pr_ready, pr_fetched\<lparr> mergeable := Mergeable True \<rparr>]) []
         [Call (PullsList 1), StartGroup ''Processing PR #8'',
            Call (ReposGetBranch ''main''), Warning ''Merging PR #8'',
            Call (PullsMerge 8 ''abc123'' None), EndGroup,
            SetFailed (RemoteError 409 ''Conflict'')]
     = Some (RemoteError 409 ''Conflict'', [EndGroup, SetFailed (RemoteError 409 ''Conflict'')])
   \<and> run push_event no_requirements remote_list_conflict initial_state
     = (Inr (), \<lparr> doesBranchHaveRequiredChecksCache = Map.empty,
                  events = [Call (PullsList 1)] \<rparr>)
   \<and> pulls_list remote_list_conflict (events initial_state) 1
     = Inl (RemoteError 409 ''Conflict'')
   \<and> status (RemoteError 409 ''Conflict'') = Some 409
   \<and> processPages no_requirements remote_list_conflict 1 (Suc 0) initial_state
     = (Inr (), \<lparr> doesBranchHaveRequiredChecksCache = Map.empty,
                  events = [Call (PullsList 1)] \<rparr>)"
  using remote_failure_ends_run
    [where ctx = push_event and cfg = no_requirements
       and r = "remote_conflict [pr_ready, pr_fetched\<lparr> mergeable := Mergeable True \<rparr>]"
       and s = initial_state and res = "Inl (RemoteError 409 ''Conflict'')"
       and s' = "\<lparr> doesBranchHaveRequiredChecksCache = [''main'' \<mapsto> True],
          events = [Call (PullsList 1), StartGroup ''Processing PR #8'',
            Call (ReposGetBranch ''main''), Warning ''Merging PR #8'',
            Call (PullsMerge 8 ''abc123'' None), EndGroup,
            SetFailed (RemoteError 409 ''Conflict'')] \<rparr>"
       and ?s0.0 = initial_state and p = "PrObject pr_ready"
       and page = 1 and k = 0 and ?e409.0 = TypeError]
    remote_failure_ends_run
    [where ctx = push_event and cfg = no_requirements and r = remote_list_conflict
       and s = initial_state and res = "Inr ()"
       and s' = "\<lparr> doesBranchHaveRequiredChecksCache = Map.empty,
                  events = [Call (PullsList 1)] \<rparr>"
       and ?s0.0 = initial_state and p = "PrObject pr_ready"
       and page = 1 and k = 0 and ?e409.0 = "RemoteError 409 ''Conflict''"]
  by (simp add: run_def dispatch_def processAllPrs_def push_event_def
      no_requirements_def remote_conflict_def remote_list_conflict_def initial_state_def emit_def
      processPr_def processPrGroup_def processPrChecks_def
      requiredChecksThenMerge_def mergePr_def doesBranchHaveRequiredChecks_def
      main_protected_def pr_ready_def pr_fetched_def showNat.simps Let_def new_events_def)

end
